theory Spec2Isabelle
  imports Main
begin

section \<open>Constraint expressions\<close>

text \<open>
  The solver module builds integer-arithmetic terms and Boolean constraints with the
  engine's expression API (\<^verbatim>\<open>Int\<close>, \<^verbatim>\<open>Sum\<close>, \<^verbatim>\<open>Or\<close>, the comparison operators) and
  hands them to the engine.  They are modelled as two datatypes.  A Python integer that
  takes part in an operation with an engine term is coerced to an integer numeral,
  here \<open>IntVal\<close>.
\<close>

datatype aexp =
    IntVal int
  | IntVar string
  | Add aexp aexp
  | Sub aexp aexp
  | Mul aexp aexp
  | Sum "aexp list"

datatype bexp =
    BoolVal bool
  | Ge aexp aexp
  | Le aexp aexp
  | Eq aexp aexp
  | Ne aexp aexp
  | Not bexp
  | And "bexp list"
  | Or "bexp list"

text \<open>
  The engine's \<^verbatim>\<open>Sum\<close> of an empty argument list is the integer \<open>0\<close>, not a sum node.
  Python then compares two integers and hands the resulting truth value to the engine,
  which casts it to a Boolean constant; here the comparison is kept as a constraint
  between two numerals, which has the same value in every model.
\<close>

definition z3_Sum :: "aexp list \<Rightarrow> aexp" where
  "z3_Sum args = (if args = [] then IntVal 0 else Sum args)"

text \<open>
  A model returned by the engine binds integer constants to values.  A constant the
  model does not mention is free; evaluation completes the model with \<open>0\<close> there.
\<close>

type_synonym model = "(string \<times> int) list"

fun aval :: "model \<Rightarrow> aexp \<Rightarrow> int" where
  "aval m (IntVal n) = n"
| "aval m (IntVar x) = (case map_of m x of Some v \<Rightarrow> v | None \<Rightarrow> 0)"
| "aval m (Add a b) = aval m a + aval m b"
| "aval m (Sub a b) = aval m a - aval m b"
| "aval m (Mul a b) = aval m a * aval m b"
| "aval m (Sum as) = sum_list (map (aval m) as)"

fun bval :: "model \<Rightarrow> bexp \<Rightarrow> bool" where
  "bval m (BoolVal b) = b"
| "bval m (Ge a b) = (aval m a \<ge> aval m b)"
| "bval m (Le a b) = (aval m a \<le> aval m b)"
| "bval m (Eq a b) = (aval m a = aval m b)"
| "bval m (Ne a b) = (aval m a \<noteq> aval m b)"
| "bval m (Not c) = (\<not> bval m c)"
| "bval m (And cs) = list_all (bval m) cs"
| "bval m (Or cs) = list_ex (bval m) cs"

definition satisfies :: "model \<Rightarrow> bexp list \<Rightarrow> bool" where
  "satisfies m cs = list_all (bval m) cs"


section \<open>The problem model, as far as the solver reads it\<close>

record resource =
  resource_name :: string
  productivity :: int
  busy_intervals :: "(string \<times> aexp \<times> aexp) list"
  resource_assertions :: "bexp list"

record task =
  task_name :: string
  task_assertions :: "bexp list"
  task_start :: aexp
  task_end :: aexp
  lower_bounded :: bool
  upper_bounded :: bool
  work_amount :: int
  required_resources :: "resource list"

datatype ObjectiveType = MAKESPAN | LATEST | FLOWTIME | EARLIEST

record problem =
  name :: string
  horizon :: aexp
  get_tasks :: "task list"
  get_resources :: "resource list"
  constraints :: "bexp list"
  objectives :: "ObjectiveType list"
  solution :: "model option"

text \<open>
  Modelled from the spec: the problem's \<^verbatim>\<open>set_solution\<close> is not part of the solver
  module.  The specification says it replaces any previous solution by the one derived
  from the model it is given; the stored solution is represented by that model.
\<close>

definition set_solution :: "problem \<Rightarrow> model \<Rightarrow> problem" where
  "set_solution p m = p\<lparr>solution := Some m\<rparr>"


section \<open>The external engine\<close>

datatype CheckSatResult = sat | unsat | unknown

datatype z3_kind = Optimize | SolverFor string

datatype target = Minimize aexp | Maximize aexp

datatype option_value = OptInt int | OptBool bool

text \<open>
  The engine is a parameter.  It has a hidden state of type \<open>'e\<close>; \<open>check\<close> sees the
  staged constraint set and the optimization targets and may change the hidden state,
  the other three primitives read it.
\<close>

record 'e engine =
  check :: "z3_kind \<Rightarrow> bexp list \<Rightarrow> target list \<Rightarrow> 'e \<Rightarrow> CheckSatResult \<times> 'e"
  model_of :: "'e \<Rightarrow> model"
  reason_unknown :: "'e \<Rightarrow> string"
  statistics :: "'e \<Rightarrow> (string \<times> string) list"

text \<open>
  The one assumption made about the engine: when \<open>check\<close> answers \<open>sat\<close>, the model it
  then exposes satisfies every staged constraint.
\<close>

definition engine_sound :: "'e engine \<Rightarrow> bool" where
  "engine_sound eng \<longleftrightarrow>
     (\<forall>k cs ts e e'. check eng k cs ts e = (sat, e') \<longrightarrow> satisfies (model_of eng e') cs)"


section \<open>The solver\<close>

datatype error = KeyError string | AttributeError string | Z3Exception string

text \<open>
  Everything the solver prints, warns about or calls on the problem, in order.  The
  elapsed time in the line printed after a check is not part of the event.
\<close>

datatype event =
    OptimizationPrinted bool
  | SatCheckedPrinted string
  | AssertionPrinted bexp
  | NoSolutionExistsPrinted string
  | NoSolutionFoundPrinted string string
  | StatisticsHeaderPrinted
  | StatisticPrinted string string
  | SolutionHeaderPrinted
  | BindingPrinted string int
  | Warned string
  | SetSolutionCalled model

record 'e SchedulingSolver =
  problem :: problem
  verbosity :: bool
  options :: "(string \<times> option_value) list"
  kind :: z3_kind
  assertions :: "bexp list"
  targets :: "target list"
  engine_state :: 'e
  current_solution :: "model option"
  trace :: "event list"

definition solver_add :: "bexp list \<Rightarrow> 'e SchedulingSolver \<Rightarrow> 'e SchedulingSolver" where
  "solver_add cs s = s\<lparr>assertions := assertions s @ cs\<rparr>"

text \<open>Only the optimizing engine object has \<^verbatim>\<open>minimize\<close> and \<^verbatim>\<open>maximize\<close>.\<close>

definition solver_minimize :: "aexp \<Rightarrow> 'e SchedulingSolver \<Rightarrow> error + 'e SchedulingSolver" where
  "solver_minimize a s =
     (case kind s of
        Optimize \<Rightarrow> Inr (s\<lparr>targets := targets s @ [Minimize a]\<rparr>)
      | SolverFor _ \<Rightarrow> Inl (AttributeError ''minimize''))"

definition solver_maximize :: "aexp \<Rightarrow> 'e SchedulingSolver \<Rightarrow> error + 'e SchedulingSolver" where
  "solver_maximize a s =
     (case kind s of
        Optimize \<Rightarrow> Inr (s\<lparr>targets := targets s @ [Maximize a]\<rparr>)
      | SolverFor _ \<Rightarrow> Inl (AttributeError ''maximize''))"

text \<open>Appending an event (a printed line, a warning, a call on the problem) to the trace.\<close>

definition emit :: "event \<Rightarrow> 'e SchedulingSolver \<Rightarrow> 'e SchedulingSolver" where
  "emit ev s = s\<lparr>trace := trace s @ [ev]\<rparr>"

text \<open>A \<^verbatim>\<open>for\<close> loop whose body may raise: the first exception ends it.\<close>

fun for_each :: "('a \<Rightarrow> 's \<Rightarrow> error + 's) \<Rightarrow> 'a list \<Rightarrow> 's \<Rightarrow> error + 's" where
  "for_each body [] s = Inr s"
| "for_each body (x # xs) s =
     (case body x s of Inl e \<Rightarrow> Inl e | Inr s' \<Rightarrow> for_each body xs s')"


subsection \<open>Objectives\<close>

fun create_objective ::
  "task list \<Rightarrow> ObjectiveType \<Rightarrow> 'e SchedulingSolver \<Rightarrow> error + 'e SchedulingSolver" where
  "create_objective tsks MAKESPAN s = solver_minimize (horizon (problem s)) s"
| "create_objective tsks LATEST s =
     (let mini = IntVar ''SmallestStartTime'';
          s1 = solver_add [Or (map (\<lambda>t. Eq mini (task_start t)) tsks)] s;
          s2 = fold (\<lambda>tsk. solver_add [Le mini (task_start tsk)]) tsks s1
      in solver_maximize mini s2)"
| "create_objective tsks FLOWTIME s =
     (let flowtime = IntVar ''FlowTime'';
          s1 = solver_add [Eq flowtime (z3_Sum (map task_end tsks))] s
      in solver_minimize flowtime s1)"
| "create_objective tsks EARLIEST s =
     (let maxi = IntVar ''GreatestStartTime'';
          s1 = solver_add [Or (map (\<lambda>t. Eq maxi (task_start t)) tsks)] s;
          s2 = fold (\<lambda>tsk. solver_add [Ge maxi (task_start tsk)]) tsks s1
      in solver_minimize maxi s2)"

definition create_objectives :: "'e SchedulingSolver \<Rightarrow> error + 'e SchedulingSolver" where
  "create_objectives s =
     for_each (create_objective (get_tasks (problem s))) (objectives (problem s)) s"


subsection \<open>Work amount\<close>

text \<open>
  The inner loop of \<^verbatim>\<open>process_work_amount\<close>.  The busy intervals of a resource are a
  dictionary keyed by task; a task the resource has no interval for raises.
\<close>

fun work_contributions :: "task \<Rightarrow> resource list \<Rightarrow> aexp list \<Rightarrow> error + aexp list" where
  "work_contributions t [] work_total_for_all_resources = Inr work_total_for_all_resources"
| "work_contributions t (required_resource # rs) work_total_for_all_resources =
     (case map_of (busy_intervals required_resource) (task_name t) of
        None \<Rightarrow> Inl (KeyError (task_name t))
      | Some (interv_low, interv_up) \<Rightarrow>
          work_contributions t rs
            (work_total_for_all_resources @
               [Mul (IntVal (productivity required_resource)) (Sub interv_up interv_low)]))"

definition work_amount_step :: "task \<Rightarrow> 'e SchedulingSolver \<Rightarrow> error + 'e SchedulingSolver" where
  "work_amount_step t s =
     (if work_amount t > 0 then
        (case work_contributions t (required_resources t) [] of
           Inl e \<Rightarrow> Inl e
         | Inr work_total \<Rightarrow>
             Inr (solver_add [Ge (z3_Sum work_total) (IntVal (work_amount t))] s))
      else Inr s)"

definition process_work_amount :: "'e SchedulingSolver \<Rightarrow> error + 'e SchedulingSolver" where
  "process_work_amount s = for_each work_amount_step (get_tasks (problem s)) s"


subsection \<open>Construction\<close>

text \<open>The body of the loop over the tasks: the task's own assertions, then its bounds.\<close>

definition add_task :: "task \<Rightarrow> 'e SchedulingSolver \<Rightarrow> 'e SchedulingSolver" where
  "add_task t s =
     (let s1 = solver_add (task_assertions t) s;
          s2 = solver_add [Ge (task_end t) (IntVal 0)] s1;
          s3 = (if \<not> lower_bounded t then solver_add [Ge (task_start t) (IntVal 0)] s2 else s2)
      in if \<not> upper_bounded t
         then solver_add [Le (task_end t) (horizon (problem s3))] s3 else s3)"

text \<open>Configuration and choice of the engine object.\<close>

definition new_solver :: "problem \<Rightarrow> bool \<Rightarrow> int \<Rightarrow> bool \<Rightarrow> 'e \<Rightarrow> 'e SchedulingSolver" where
  "new_solver p verbose max_time parallel e0 =
     (let opts1 = (if verbose then [(''verbose'', OptInt 2)] else [])
                    @ [(''timeout'', OptInt (max_time * 1000))];
          opts2 = opts1 @ (if parallel
                           then [(''parallel.enable'', OptBool True),
                                 (''parallel.threads.max'', OptInt 4)]
                           else [])
      in \<lparr> problem = p, verbosity = verbose, options = opts2,
           kind = (if objectives p \<noteq> [] then Optimize else SolverFor ''QF_LIA''),
           assertions = [], targets = [], engine_state = e0,
           current_solution = None,
           trace = (if verbose then [OptimizationPrinted (objectives p \<noteq> [])] else []) \<rparr>)"

text \<open>The three loops over tasks, user constraints and resources.\<close>

definition add_entities :: "'e SchedulingSolver \<Rightarrow> 'e SchedulingSolver" where
  "add_entities s0 =
     (let s1 = fold add_task (get_tasks (problem s0)) s0;
          s2 = fold (\<lambda>constraint. solver_add [constraint]) (constraints (problem s1)) s1
      in fold (\<lambda>ress. solver_add (resource_assertions ress)) (get_resources (problem s2)) s2)"

text \<open>
  The constructor.  The retained solution is unset when it returns.  The initial hidden
  state of the engine object is a parameter.
\<close>

definition init :: "problem \<Rightarrow> bool \<Rightarrow> int \<Rightarrow> bool \<Rightarrow> 'e \<Rightarrow> error + 'e SchedulingSolver" where
  "init p verbose max_time parallel e0 =
     (case process_work_amount (add_entities (new_solver p verbose max_time parallel e0)) of
        Inl e \<Rightarrow> Inl e
      | Inr s4 \<Rightarrow>
          (case create_objectives s4 of
             Inl e \<Rightarrow> Inl e
           | Inr s5 \<Rightarrow> Inr (s5\<lparr>current_solution := None\<rparr>)))"


subsection \<open>Checking and solving\<close>

text \<open>
  \<^verbatim>\<open>check_sat\<close> and \<^verbatim>\<open>solve\<close> contain no \<^verbatim>\<open>raise\<close> and call only primitives of the
  engine; their results have no error component.
\<close>

definition check_sat :: "'e engine \<Rightarrow> 'e SchedulingSolver \<Rightarrow> bool \<times> 'e SchedulingSolver" where
  "check_sat eng s =
     (let (sat_result, e') = check eng (kind s) (assertions s) (targets s) (engine_state s);
          s1 = emit (SatCheckedPrinted (name (problem s))) (s\<lparr>engine_state := e'\<rparr>);
          s2 = (if verbosity s1 then fold (\<lambda>a. emit (AssertionPrinted a)) (assertions s1) s1
                else s1)
      in if sat_result = unsat then
           (False, emit (NoSolutionExistsPrinted (name (problem s2))) s2)
         else if sat_result = unknown then
           (let reason = reason_unknown eng (engine_state s2)
            in (False, emit (NoSolutionFoundPrinted (name (problem s2)) reason) s2))
         else (True, s2))"

definition solve :: "'e engine \<Rightarrow> 'e SchedulingSolver \<Rightarrow> bool \<times> 'e SchedulingSolver" where
  "solve eng s =
     (let (ok, s1) = check_sat eng s
      in if \<not> ok then (False, s1)
         else
           (let solution = model_of eng (engine_state s1);
                s2 = (if verbosity s1 then
                        (let a = emit StatisticsHeaderPrinted s1;
                             b = fold (\<lambda>(key, v). emit (StatisticPrinted key v))
                                   (statistics eng (engine_state a)) a;
                             c = emit SolutionHeaderPrinted b
                         in fold (\<lambda>(var_name, var_value). emit (BindingPrinted var_name var_value))
                              solution c)
                      else s1);
                s3 = emit (SetSolutionCalled solution)
                       (s2\<lparr>problem := set_solution (problem s2) solution\<rparr>);
                s4 = s3\<lparr>current_solution := Some solution\<rparr>
            in (True, s4)))"

text \<open>
  Indexing a model and reading the value with \<^verbatim>\<open>as_long\<close>: only a constant the model
  binds has a value.  For a constant the model does not bind, and for a numeral, the
  lookup gives \<^verbatim>\<open>None\<close>, on which \<^verbatim>\<open>as_long\<close> raises; a compound term is refused by
  the engine.
\<close>

fun model_getitem_as_long :: "model \<Rightarrow> aexp \<Rightarrow> error + int" where
  "model_getitem_as_long m (IntVar x) =
     (case map_of m x of None \<Rightarrow> Inl (AttributeError ''as_long'') | Some v \<Rightarrow> Inr v)"
| "model_getitem_as_long m (IntVal n) = Inl (AttributeError ''as_long'')"
| "model_getitem_as_long m _ = Inl (Z3Exception ''constant expected'')"

definition find_another_solution ::
  "'e engine \<Rightarrow> aexp \<Rightarrow> 'e SchedulingSolver \<Rightarrow> error + bool \<times> 'e SchedulingSolver" where
  "find_another_solution eng variable s =
     (case current_solution s of
        None \<Rightarrow>
          Inr (False, emit (Warned ''No current solution. First call the solve() method.'') s)
      | Some cur \<Rightarrow>
          (case model_getitem_as_long cur variable of
             Inl e \<Rightarrow> Inl e
           | Inr current_variable_value \<Rightarrow>
               Inr (solve eng (solver_add [Ne variable (IntVal current_variable_value)] s))))"


subsection \<open>Sequences of calls\<close>

datatype call = Solve | FindAnotherSolution aexp

fun do_call :: "'e engine \<Rightarrow> call \<Rightarrow> 'e SchedulingSolver \<Rightarrow> error + 'e SchedulingSolver" where
  "do_call eng Solve s = Inr (snd (solve eng s))"
| "do_call eng (FindAnotherSolution v) s =
     (case find_another_solution eng v s of Inl e \<Rightarrow> Inl e | Inr (_, s') \<Rightarrow> Inr s')"

definition run :: "'e engine \<Rightarrow> call list \<Rightarrow> 'e SchedulingSolver \<Rightarrow> error + 'e SchedulingSolver" where
  "run eng calls s = for_each (do_call eng) calls s"


section \<open>Notions used to state the properties\<close>

text \<open>The models handed to \<^verbatim>\<open>set_solution\<close>, in the order of the calls.\<close>

fun set_solution_calls :: "event list \<Rightarrow> model list" where
  "set_solution_calls [] = []"
| "set_solution_calls (SetSolutionCalled m # evs) = m # set_solution_calls evs"
| "set_solution_calls (_ # evs) = set_solution_calls evs"

text \<open>
  The work a model gives to a task: over the task's required resources, productivity
  times the length of the interval the resource is busy with the task.
\<close>

definition work_done :: "model \<Rightarrow> task \<Rightarrow> int" where
  "work_done m t =
     sum_list (map (\<lambda>r. case map_of (busy_intervals r) (task_name t) of
                           Some (lo, up) \<Rightarrow> productivity r * (aval m up - aval m lo)
                         | None \<Rightarrow> 0)
                   (required_resources t))"

text \<open>
  The data-model invariant that a resource required by a task has a busy interval for
  it (stated for the tasks whose intervals the solver reads).
\<close>

definition has_busy_intervals :: "task \<Rightarrow> bool" where
  "has_busy_intervals t =
     list_all (\<lambda>r. map_of (busy_intervals r) (task_name t) \<noteq> None) (required_resources t)"

definition busy_intervals_registered :: "problem \<Rightarrow> bool" where
  "busy_intervals_registered p =
     list_all (\<lambda>t. work_amount t > 0 \<longrightarrow> has_busy_intervals t) (get_tasks p)"

text \<open>What a model must do for a constraint to be the work-amount constraint of a task.\<close>

definition meets_work_amount :: "bexp \<Rightarrow> task \<Rightarrow> bool" where
  "meets_work_amount c t \<longleftrightarrow> (\<forall>m. bval m c \<longleftrightarrow> work_amount t \<le> work_done m t)"

text \<open>The constraints staged for one task: its own, then the default bounds.\<close>

definition task_constraints :: "aexp \<Rightarrow> task \<Rightarrow> bexp list" where
  "task_constraints h t =
     task_assertions t @ [Ge (task_end t) (IntVal 0)]
       @ (if lower_bounded t then [] else [Ge (task_start t) (IntVal 0)])
       @ (if upper_bounded t then [] else [Le (task_end t) h])"

text \<open>The constraints staged by the three loops over tasks, user constraints, resources.\<close>

definition entity_constraints :: "problem \<Rightarrow> bexp list" where
  "entity_constraints p =
     concat (map (task_constraints (horizon p)) (get_tasks p))
       @ constraints p
       @ concat (map resource_assertions (get_resources p))"

text \<open>
  A state \<open>s'\<close> extends \<open>s\<close> when it differs at most by constraints and targets staged
  after those of \<open>s\<close>.
\<close>

definition extends :: "'e SchedulingSolver \<Rightarrow> 'e SchedulingSolver \<Rightarrow> bool" where
  "extends s s' \<longleftrightarrow>
     (\<exists>cs ts. s' = s\<lparr>assertions := assertions s @ cs, targets := targets s @ ts\<rparr>)"

text \<open>
  A set of constraints is staged, and satisfied by the retained model and by every model
  handed to \<open>set_solution\<close> so far.
\<close>

definition retained_satisfies :: "bexp set \<Rightarrow> 'e SchedulingSolver \<Rightarrow> bool" where
  "retained_satisfies A s \<longleftrightarrow>
     A \<subseteq> set (assertions s)
     \<and> (\<forall>m. current_solution s = Some m \<longrightarrow> (\<forall>a\<in>A. bval m a))
     \<and> (\<forall>m\<in>set (set_solution_calls (trace s)). \<forall>a\<in>A. bval m a)"


section \<open>A small engine and two small problems\<close>

text \<open>
  An engine that tries a fixed list of candidate models and gives up when none of them
  satisfies the staged constraints.  Its hidden state is the model found last.
\<close>

definition candidates_engine :: "model list \<Rightarrow> (model option) engine" where
  "candidates_engine cands =
     \<lparr> check = (\<lambda>k cs ts e. case find (\<lambda>m. satisfies m cs) cands of
                               Some m \<Rightarrow> (sat, Some m)
                             | None \<Rightarrow> (unknown, None)),
       model_of = (\<lambda>e. case e of Some m \<Rightarrow> m | None \<Rightarrow> []),
       reason_unknown = (\<lambda>e. ''canceled''),
       statistics = (\<lambda>e. []) \<rparr>"

text \<open>
  One task of duration 2 on one worker of productivity 2, work amount 4, horizon 4,
  objective LATEST.  The task can start at 0, 1 or 2.
\<close>

definition worker1 :: resource where
  "worker1 =
     \<lparr> resource_name = ''Worker1'', productivity = 2,
       busy_intervals = [(''task1'', (IntVar ''bs'', IntVar ''be''))],
       resource_assertions =
         [Eq (IntVar ''bs'') (IntVar ''s1''), Eq (IntVar ''be'') (IntVar ''e1'')] \<rparr>"

definition task1 :: task where
  "task1 =
     \<lparr> task_name = ''task1'',
       task_assertions = [Eq (Add (IntVar ''s1'') (IntVal 2)) (IntVar ''e1'')],
       task_start = IntVar ''s1'', task_end = IntVar ''e1'',
       lower_bounded = False, upper_bounded = False,
       work_amount = 4, required_resources = [worker1] \<rparr>"

definition pb :: problem where
  "pb = \<lparr> name = ''pb'', horizon = IntVal 4, get_tasks = [task1],
          get_resources = [worker1], constraints = [], objectives = [LATEST],
          solution = None \<rparr>"

definition m0 :: model where
  "m0 = [(''s1'', 0), (''e1'', 2), (''bs'', 0), (''be'', 2), (''SmallestStartTime'', 0)]"

definition m1 :: model where
  "m1 = [(''s1'', 1), (''e1'', 3), (''bs'', 1), (''be'', 3), (''SmallestStartTime'', 1)]"

definition m2 :: model where
  "m2 = [(''s1'', 2), (''e1'', 4), (''bs'', 2), (''be'', 4), (''SmallestStartTime'', 2)]"

definition E :: "(model option) engine" where
  "E = candidates_engine [m0, m1]"

definition E3 :: "(model option) engine" where
  "E3 = candidates_engine [m0, m1, m2]"

definition S0 :: "(model option) SchedulingSolver" where
  "S0 = projr (init pb False 60 False None)"

text \<open>The states after \<^verbatim>\<open>solve\<close> and after one, two diversification calls on the start.\<close>

definition S1 :: "(model option) SchedulingSolver" where
  "S1 = snd (solve E S0)"

definition S2 :: "(model option) SchedulingSolver" where
  "S2 = snd (projr (find_another_solution E (IntVar ''s1'') S1))"

definition S3 :: "(model option) SchedulingSolver" where
  "S3 = snd (projr (find_another_solution E (IntVar ''s1'') S2))"

text \<open>
  With the third candidate: \<^verbatim>\<open>solve\<close>, a diversification call on the start, \<^verbatim>\<open>solve\<close>
  again, and a second diversification call on the start.
\<close>

definition T1 :: "(model option) SchedulingSolver" where
  "T1 = snd (solve E3 S0)"

definition T2 :: "(model option) SchedulingSolver" where
  "T2 = snd (projr (find_another_solution E3 (IntVar ''s1'') T1))"

definition T3 :: "(model option) SchedulingSolver" where
  "T3 = projr (run E3 [Solve] T2)"

definition T4 :: "(model option) SchedulingSolver" where
  "T4 = snd (projr (find_another_solution E3 (IntVar ''s1'') T3))"

text \<open>
  An engine that proposes the models of a script, one per check, and gives up when the
  proposed model does not satisfy the staged constraints or the script has ended.  Its
  hidden state is the number of checks made and the model found last.
\<close>

definition scripted_engine :: "model list \<Rightarrow> (nat \<times> model) engine" where
  "scripted_engine script =
     \<lparr> check = (\<lambda>k cs ts (n, m).
                  if n < length script \<and> satisfies (script ! n) cs
                  then (sat, (Suc n, script ! n))
                  else (unknown, (Suc n, []))),
       model_of = (\<lambda>(n, m). m),
       reason_unknown = (\<lambda>e. ''canceled''),
       statistics = (\<lambda>e. []) \<rparr>"

text \<open>
  The engine proposes \<open>m0\<close>, \<open>m1\<close>, \<open>m2\<close>, \<open>m1\<close>; the calls are \<^verbatim>\<open>solve\<close>, a
  diversification call on the start, \<^verbatim>\<open>solve\<close>, a diversification call on the start.
\<close>

definition ES :: "(nat \<times> model) engine" where
  "ES = scripted_engine [m0, m1, m2, m1]"

definition U0 :: "(nat \<times> model) SchedulingSolver" where
  "U0 = projr (init pb False 60 False (0, []))"

definition U1 :: "(nat \<times> model) SchedulingSolver" where
  "U1 = snd (solve ES U0)"

definition U2 :: "(nat \<times> model) SchedulingSolver" where
  "U2 = snd (projr (find_another_solution ES (IntVar ''s1'') U1))"

definition U3 :: "(nat \<times> model) SchedulingSolver" where
  "U3 = snd (solve ES U2)"

definition U4 :: "(nat \<times> model) SchedulingSolver" where
  "U4 = snd (projr (find_another_solution ES (IntVar ''s1'') U3))"

text \<open>The same task with work to do and no resource, and no objective.\<close>

definition idle_task :: task where
  "idle_task = task1\<lparr>required_resources := []\<rparr>"

definition idle_pb :: problem where
  "idle_pb = pb\<lparr>get_tasks := [idle_task], get_resources := [], objectives := []\<rparr>"

definition I0 :: "(model option) SchedulingSolver" where
  "I0 = projr (init idle_pb False 60 False None)"


section \<open>Frame lemmas\<close>


lemma solver_add_fields [simp]:
  "assertions (solver_add cs s) = assertions s @ cs"
  "problem (solver_add cs s) = problem s"
  "verbosity (solver_add cs s) = verbosity s"
  "options (solver_add cs s) = options s"
  "kind (solver_add cs s) = kind s"
  "targets (solver_add cs s) = targets s"
  "engine_state (solver_add cs s) = engine_state s"
  "current_solution (solver_add cs s) = current_solution s"
  "trace (solver_add cs s) = trace s"
  by (simp_all add: solver_add_def)

lemma emit_fields [simp]:
  "assertions (emit ev s) = assertions s"
  "problem (emit ev s) = problem s"
  "verbosity (emit ev s) = verbosity s"
  "options (emit ev s) = options s"
  "kind (emit ev s) = kind s"
  "targets (emit ev s) = targets s"
  "engine_state (emit ev s) = engine_state s"
  "current_solution (emit ev s) = current_solution s"
  "trace (emit ev s) = trace s @ [ev]"
  by (simp_all add: emit_def)

lemma fold_solver_add_assertions:
  "assertions (fold (\<lambda>x. solver_add (f x)) xs s) = assertions s @ concat (map f xs)"
  by (induction xs arbitrary: s) simp_all

lemma fold_solver_add_frame:
  "problem (fold (\<lambda>x. solver_add (f x)) xs s) = problem s"
  "verbosity (fold (\<lambda>x. solver_add (f x)) xs s) = verbosity s"
  "options (fold (\<lambda>x. solver_add (f x)) xs s) = options s"
  "kind (fold (\<lambda>x. solver_add (f x)) xs s) = kind s"
  "targets (fold (\<lambda>x. solver_add (f x)) xs s) = targets s"
  "engine_state (fold (\<lambda>x. solver_add (f x)) xs s) = engine_state s"
  "current_solution (fold (\<lambda>x. solver_add (f x)) xs s) = current_solution s"
  "trace (fold (\<lambda>x. solver_add (f x)) xs s) = trace s"
  by (induction xs arbitrary: s) simp_all

lemma fold_emit_trace:
  "trace (fold (\<lambda>x. emit (f x)) xs s) = trace s @ map f xs"
  by (induction xs arbitrary: s) simp_all

lemma fold_emit_frame:
  "assertions (fold (\<lambda>x. emit (f x)) xs s) = assertions s"
  "problem (fold (\<lambda>x. emit (f x)) xs s) = problem s"
  "verbosity (fold (\<lambda>x. emit (f x)) xs s) = verbosity s"
  "options (fold (\<lambda>x. emit (f x)) xs s) = options s"
  "kind (fold (\<lambda>x. emit (f x)) xs s) = kind s"
  "targets (fold (\<lambda>x. emit (f x)) xs s) = targets s"
  "engine_state (fold (\<lambda>x. emit (f x)) xs s) = engine_state s"
  "current_solution (fold (\<lambda>x. emit (f x)) xs s) = current_solution s"
  by (induction xs arbitrary: s) simp_all

lemma result_cases: "r = sat \<or> r = unsat \<or> r = unknown"
  by (cases r) simp_all

text \<open>What check_sat leaves behind.\<close>

lemma check_sat_fst:
  "fst (check_sat eng s) \<longleftrightarrow>
     fst (check eng (kind s) (assertions s) (targets s) (engine_state s)) = sat"
  using result_cases [of "fst (check eng (kind s) (assertions s) (targets s) (engine_state s))"]
  by (auto simp: check_sat_def Let_def split: prod.splits)

lemma check_sat_frame:
  "assertions (snd (check_sat eng s)) = assertions s"
  "problem (snd (check_sat eng s)) = problem s"
  "verbosity (snd (check_sat eng s)) = verbosity s"
  "options (snd (check_sat eng s)) = options s"
  "kind (snd (check_sat eng s)) = kind s"
  "targets (snd (check_sat eng s)) = targets s"
  "current_solution (snd (check_sat eng s)) = current_solution s"
  "engine_state (snd (check_sat eng s)) =
     snd (check eng (kind s) (assertions s) (targets s) (engine_state s))"
  by (simp_all add: check_sat_def Let_def fold_emit_frame split: prod.splits)

lemma check_sat_trace:
  "trace (snd (check_sat eng s)) =
     trace s @ [SatCheckedPrinted (name (problem s))]
       @ (if verbosity s then map AssertionPrinted (assertions s) else [])
       @ (case fst (check eng (kind s) (assertions s) (targets s) (engine_state s)) of
            sat \<Rightarrow> []
          | unsat \<Rightarrow> [NoSolutionExistsPrinted (name (problem s))]
          | unknown \<Rightarrow>
              [NoSolutionFoundPrinted (name (problem s))
                 (reason_unknown eng
                    (snd (check eng (kind s) (assertions s) (targets s) (engine_state s))))])"
proof -
  obtain r e' where c: "check eng (kind s) (assertions s) (targets s) (engine_state s) = (r, e')"
    by (cases "check eng (kind s) (assertions s) (targets s) (engine_state s)")
  show ?thesis
    by (cases r) (simp_all add: check_sat_def c Let_def fold_emit_frame fold_emit_trace)
qed


lemma fold_emit_pair_trace:
  "trace (fold (\<lambda>(a, b). emit (f a b)) xs s) = trace s @ map (\<lambda>(a, b). f a b) xs"
  by (induction xs arbitrary: s) (simp_all split: prod.splits)

lemma fold_emit_pair_frame:
  "assertions (fold (\<lambda>(a, b). emit (f a b)) xs s) = assertions s"
  "problem (fold (\<lambda>(a, b). emit (f a b)) xs s) = problem s"
  "verbosity (fold (\<lambda>(a, b). emit (f a b)) xs s) = verbosity s"
  "options (fold (\<lambda>(a, b). emit (f a b)) xs s) = options s"
  "kind (fold (\<lambda>(a, b). emit (f a b)) xs s) = kind s"
  "targets (fold (\<lambda>(a, b). emit (f a b)) xs s) = targets s"
  "engine_state (fold (\<lambda>(a, b). emit (f a b)) xs s) = engine_state s"
  "current_solution (fold (\<lambda>(a, b). emit (f a b)) xs s) = current_solution s"
  by (induction xs arbitrary: s) (simp_all split: prod.splits)

lemma solve_fst: "fst (solve eng s) = fst (check_sat eng s)"
  by (simp add: solve_def Let_def split: prod.splits)

lemma solve_failed: "\<not> fst (check_sat eng s) \<Longrightarrow> solve eng s = (False, snd (check_sat eng s))"
  by (cases "check_sat eng s") (simp add: solve_def)

lemma solve_frame:
  "assertions (snd (solve eng s)) = assertions s"
  "verbosity (snd (solve eng s)) = verbosity s"
  "options (snd (solve eng s)) = options s"
  "kind (snd (solve eng s)) = kind s"
  "targets (snd (solve eng s)) = targets s"
  "engine_state (snd (solve eng s)) =
     snd (check eng (kind s) (assertions s) (targets s) (engine_state s))"
  using check_sat_frame [of eng s]
  by (auto simp: solve_def Let_def fold_emit_pair_frame split: prod.splits)

lemma solve_current_solution:
  "current_solution (snd (solve eng s)) =
     (if fst (check_sat eng s)
      then Some (model_of eng (snd (check eng (kind s) (assertions s) (targets s) (engine_state s))))
      else current_solution s)"
  using check_sat_frame [of eng s]
  by (auto simp: solve_def Let_def split: prod.splits)

lemma solve_problem:
  "problem (snd (solve eng s)) =
     (if fst (check_sat eng s)
      then set_solution (problem s)
             (model_of eng (snd (check eng (kind s) (assertions s) (targets s) (engine_state s))))
      else problem s)"
  using check_sat_frame [of eng s]
  by (auto simp: solve_def Let_def fold_emit_pair_frame split: prod.splits)

lemma solve_trace:
  "trace (snd (solve eng s)) =
     trace (snd (check_sat eng s)) @
       (if fst (check_sat eng s) then
          (let e' = snd (check eng (kind s) (assertions s) (targets s) (engine_state s));
               m = model_of eng e'
           in (if verbosity s
               then [StatisticsHeaderPrinted]
                      @ map (\<lambda>(key, v). StatisticPrinted key v) (statistics eng e')
                      @ [SolutionHeaderPrinted]
                      @ map (\<lambda>(n, v). BindingPrinted n v) m
               else [])
              @ [SetSolutionCalled m])
        else [])"
  using check_sat_frame [of eng s]
  by (auto simp: solve_def Let_def fold_emit_pair_frame fold_emit_pair_trace split: prod.splits)

lemma solve_model_satisfies:
  assumes "engine_sound eng" and "fst (solve eng s)"
  shows "\<exists>m. current_solution (snd (solve eng s)) = Some m \<and> satisfies m (assertions s)"
proof -
  let ?c = "check eng (kind s) (assertions s) (targets s) (engine_state s)"
  from assms(2) have "fst ?c = sat"
    by (simp add: solve_fst check_sat_fst)
  then have "?c = (sat, snd ?c)"
    by (metis prod.collapse)
  with assms(1) have "satisfies (model_of eng (snd ?c)) (assertions s)"
    unfolding engine_sound_def by blast
  moreover from assms(2) have "current_solution (snd (solve eng s)) = Some (model_of eng (snd ?c))"
    by (simp add: solve_current_solution solve_fst)
  ultimately show ?thesis by blast
qed


lemma set_solution_calls_append:
  "set_solution_calls (xs @ ys) = set_solution_calls xs @ set_solution_calls ys"
  by (induction xs rule: set_solution_calls.induct) simp_all

lemma set_solution_calls_map_none:
  "set_solution_calls (map AssertionPrinted cs) = []"
  "set_solution_calls (map (\<lambda>(key, v). StatisticPrinted key v) kvs) = []"
  "set_solution_calls (map (\<lambda>(n, v). BindingPrinted n v) bs) = []"
  by (induction cs, simp_all) (induction kvs, auto, induction bs, auto)

lemma set_solution_calls_check_sat:
  "set_solution_calls (trace (snd (check_sat eng s))) = set_solution_calls (trace s)"
  by (cases "fst (check eng (kind s) (assertions s) (targets s) (engine_state s))")
     (simp_all add: check_sat_trace set_solution_calls_append set_solution_calls_map_none)

lemma init_pb: "init pb False 60 False None = Inr S0"
  unfolding S0_def by code_simp

lemma candidates_engine_sound: "engine_sound (candidates_engine cands)"
  unfolding engine_sound_def candidates_engine_def
  by (auto split: option.splits dest: find_Some_iff [THEN iffD1])

section \<open>Checking satisfiability\<close>

text \<open>
  Claim C4.  \<^verbatim>\<open>check_sat\<close> is a total function with no error result.  When the engine's
  check answers \<open>unsat\<close> it returns false and its last report is that no solution
  exists; when the check answers \<open>unknown\<close> it returns false and its last report carries
  the reason the engine gives; in every other case it returns true and reports only the
  timing line (and the staged constraints when verbose).  Apart from the engine state and
  the reports it changes nothing.
\<close>

theorem check_sat_outcomes:
  assumes "check eng (kind s) (assertions s) (targets s) (engine_state s) = (r, e')"
  shows "(r = unsat \<longrightarrow>
            \<not> fst (check_sat eng s) \<and>
            last (trace (snd (check_sat eng s))) = NoSolutionExistsPrinted (name (problem s)))
       \<and> (r = unknown \<longrightarrow>
            \<not> fst (check_sat eng s) \<and>
            last (trace (snd (check_sat eng s)))
              = NoSolutionFoundPrinted (name (problem s)) (reason_unknown eng e'))
       \<and> (r \<noteq> unsat \<and> r \<noteq> unknown \<longrightarrow>
            fst (check_sat eng s) \<and>
            trace (snd (check_sat eng s))
              = trace s @ SatCheckedPrinted (name (problem s))
                  # (if verbosity s then map AssertionPrinted (assertions s) else []))
       \<and> engine_state (snd (check_sat eng s)) = e'
       \<and> snd (check_sat eng s)
           = s\<lparr>engine_state := e', trace := trace (snd (check_sat eng s))\<rparr>"
proof -
  have frame: "snd (check_sat eng s)
           = s\<lparr>engine_state := e', trace := trace (snd (check_sat eng s))\<rparr>"
    using assms check_sat_frame [of eng s] by (intro SchedulingSolver.equality) simp_all
  show ?thesis
    using assms frame
    by (cases r) (simp_all add: check_sat_fst check_sat_trace check_sat_frame)
qed

theorem check_sat_outcomes_witness:
  "check E (kind S0) (assertions S0) (targets S0) (engine_state S0) = (sat, Some m0)
   \<and> fst (check_sat E S0)
   \<and> trace (snd (check_sat E S0)) = [SatCheckedPrinted ''pb'']"
proof -
  have c: "check E (kind S0) (assertions S0) (targets S0) (engine_state S0) = (sat, Some m0)"
    by code_simp
  have "trace S0 = []" "verbosity S0 = False" "name (problem S0) = ''pb''"
    by code_simp+
  with c check_sat_outcomes [OF c] show ?thesis
    by simp
qed

section \<open>Solving\<close>

text \<open>
  Claim C5.  \<^verbatim>\<open>solve\<close> returns true exactly when the engine's check answers \<open>sat\<close>, that
  is when a model is obtained.  When it returns true, the model the engine exposes is
  retained as \<open>current_solution\<close>, the problem is the result of \<open>set_solution\<close> on that
  model, and \<open>set_solution\<close> has been called once more than before, with that model.
  When \<^verbatim>\<open>check_sat\<close> fails, \<^verbatim>\<open>solve\<close> returns false with the state \<^verbatim>\<open>check_sat\<close> left:
  nothing is done after it, no model is retained and \<open>set_solution\<close> is not called.
\<close>

theorem solve_true_iff_model_obtained:
  assumes "check eng (kind s) (assertions s) (targets s) (engine_state s) = (r, e')"
  shows "(fst (solve eng s) \<longleftrightarrow> r = sat)
       \<and> (fst (solve eng s) \<longrightarrow>
            current_solution (snd (solve eng s)) = Some (model_of eng e') \<and>
            problem (snd (solve eng s)) = set_solution (problem s) (model_of eng e') \<and>
            set_solution_calls (trace (snd (solve eng s)))
              = set_solution_calls (trace s) @ [model_of eng e'])
       \<and> (\<not> fst (check_sat eng s) \<longrightarrow>
            solve eng s = (False, snd (check_sat eng s)) \<and>
            current_solution (snd (solve eng s)) = current_solution s \<and>
            set_solution_calls (trace (snd (solve eng s))) = set_solution_calls (trace s))"
proof -
  have "\<not> fst (check_sat eng s) \<longrightarrow> solve eng s = (False, snd (check_sat eng s))"
    by (simp add: solve_failed)
  moreover have "fst (solve eng s) \<longleftrightarrow> r = sat"
    using assms by (simp add: solve_fst check_sat_fst)
  moreover have "current_solution (snd (solve eng s))
      = (if r = sat then Some (model_of eng e') else current_solution s)"
    using assms by (simp add: solve_current_solution check_sat_fst)
  moreover have "fst (solve eng s) \<longrightarrow>
      problem (snd (solve eng s)) = set_solution (problem s) (model_of eng e')"
    using assms by (simp add: solve_problem solve_fst)
  moreover have "set_solution_calls (trace (snd (solve eng s)))
      = set_solution_calls (trace s) @ (if r = sat then [model_of eng e'] else [])"
    using assms
    by (simp add: solve_trace check_sat_fst set_solution_calls_append
        set_solution_calls_map_none set_solution_calls_check_sat Let_def)
  ultimately show ?thesis
    using assms by (simp add: check_sat_fst check_sat_frame set_solution_calls_check_sat)
qed

theorem solve_true_iff_model_obtained_witness:
  "check E (kind S0) (assertions S0) (targets S0) (engine_state S0) = (sat, Some m0)
   \<and> fst (solve E S0)
   \<and> current_solution (snd (solve E S0)) = Some m0
   \<and> solution (problem (snd (solve E S0))) = Some m0
   \<and> set_solution_calls (trace (snd (solve E S0))) = [m0]"
proof -
  have c: "check E (kind S0) (assertions S0) (targets S0) (engine_state S0) = (sat, Some m0)"
    by code_simp
  have "trace S0 = []" "model_of E (Some m0) = m0"
    by code_simp+
  with c solve_true_iff_model_obtained [OF c] show ?thesis
    by (simp add: set_solution_def)
qed

section \<open>Diversification without a solution\<close>

text \<open>
  Claim C6.  While no solution is retained, \<^verbatim>\<open>find_another_solution\<close> raises nothing,
  returns false and leaves the solver as it was except for the warning it issues: no
  constraint is added and the retained solution stays unset.
\<close>

theorem find_another_solution_before_solve:
  assumes "current_solution s = None"
  shows "find_another_solution eng variable s
           = Inr (False,
                  s\<lparr>trace := trace s @ [Warned ''No current solution. First call the solve() method.'']\<rparr>)"
  using assms by (simp add: find_another_solution_def emit_def)

theorem find_another_solution_before_solve_witness:
  "current_solution S0 = None
   \<and> find_another_solution E (IntVar ''s1'') S0
       = Inr (False,
              S0\<lparr>trace := trace S0 @ [Warned ''No current solution. First call the solve() method.'']\<rparr>)"
proof -
  have n: "current_solution S0 = None"
    by code_simp
  with find_another_solution_before_solve [OF n, of E "IntVar ''s1''"] show ?thesis
    by simp
qed

section \<open>A failed solve keeps the solutions\<close>

text \<open>
  Claim C10.  When \<^verbatim>\<open>solve\<close> returns false, the retained solution and the problem (with
  the solution stored in it) are what they were before the call, and \<open>set_solution\<close> has
  not been called.  The same holds when \<^verbatim>\<open>find_another_solution\<close> returns false, be it
  for want of a retained solution or because the new solve failed.
\<close>

theorem failed_solve_keeps_solutions:
  "(\<not> fst (solve eng s) \<longrightarrow>
      current_solution (snd (solve eng s)) = current_solution s \<and>
      problem (snd (solve eng s)) = problem s \<and>
      set_solution_calls (trace (snd (solve eng s))) = set_solution_calls (trace s))
   \<and> (find_another_solution eng variable s = Inr (False, s') \<longrightarrow>
        current_solution s' = current_solution s \<and>
        problem s' = problem s \<and>
        set_solution_calls (trace s') = set_solution_calls (trace s))"
proof (intro conjI impI)
  assume f: "\<not> fst (solve eng s)"
  then show "current_solution (snd (solve eng s)) = current_solution s"
    and "problem (snd (solve eng s)) = problem s"
    and "set_solution_calls (trace (snd (solve eng s))) = set_solution_calls (trace s)"
    by (simp_all add: solve_fst solve_current_solution solve_problem solve_trace
        set_solution_calls_append set_solution_calls_check_sat)
next
  assume f: "find_another_solution eng variable s = Inr (False, s')"
  have "current_solution s' = current_solution s \<and> problem s' = problem s
        \<and> set_solution_calls (trace s') = set_solution_calls (trace s)"
  proof (cases "current_solution s")
    case None
    with f show ?thesis
      by (auto simp: find_another_solution_def set_solution_calls_append)
  next
    case (Some cur)
    with f obtain c where
      s': "solve eng (solver_add [Ne variable (IntVal c)] s) = (False, s')"
      by (auto simp: find_another_solution_def split: sum.splits)
    let ?s = "solver_add [Ne variable (IntVal c)] s"
    from s' have "\<not> fst (solve eng ?s)" "s' = snd (solve eng ?s)"
      by simp_all
    then show ?thesis
      by (simp add: solve_fst solve_current_solution solve_problem solve_trace
          set_solution_calls_append set_solution_calls_check_sat)
  qed
  then show "current_solution s' = current_solution s"
    and "problem s' = problem s"
    and "set_solution_calls (trace s') = set_solution_calls (trace s)"
    by simp_all
qed

theorem failed_solve_keeps_solutions_witness:
  "\<not> fst (solve E S3)
   \<and> current_solution (snd (solve E S3)) = Some m1
   \<and> solution (problem (snd (solve E S3))) = Some m1
   \<and> find_another_solution E (IntVar ''s1'') S2 = Inr (False, S3)
   \<and> current_solution S2 = Some m1
   \<and> current_solution S3 = Some m1"
proof -
  have a: "\<not> fst (solve E S3)"
    by code_simp
  have b: "find_another_solution E (IntVar ''s1'') S2 = Inr (False, S3)"
    by code_simp
  have c: "current_solution S2 = Some m1" "solution (problem S2) = Some m1"
    by code_simp+
  from failed_solve_keeps_solutions [of E S2 "IntVar ''s1''" S3] b c
  have d: "current_solution S3 = Some m1" "solution (problem S3) = Some m1"
    by simp_all
  from failed_solve_keeps_solutions [of E S3] a d
  have "current_solution (snd (solve E S3)) = Some m1"
    "solution (problem (snd (solve E S3))) = Some m1"
    by simp_all
  with a b c d show ?thesis
    by simp
qed

section \<open>Staging lemmas\<close>

lemma extends_refl: "extends s s"
  unfolding extends_def by (rule exI [of _ "[]"], rule exI [of _ "[]"]) simp

lemma extends_trans: "extends s s' \<Longrightarrow> extends s' s'' \<Longrightarrow> extends s s''"
  unfolding extends_def by (elim exE) auto

lemma extends_solver_add: "extends s (solver_add cs s)"
  unfolding extends_def solver_add_def
  by (rule exI [of _ cs], rule exI [of _ "[]"]) simp

lemma extends_fold_solver_add: "extends s (fold (\<lambda>x. solver_add (f x)) xs s)"
proof (induction xs arbitrary: s)
  case Nil
  show ?case by (simp add: extends_refl)
next
  case (Cons x xs)
  have "extends s (solver_add (f x) s)"
    by (rule extends_solver_add)
  then show ?case
    using Cons.IH [of "solver_add (f x) s"] by (auto intro: extends_trans)
qed

lemma extends_fields:
  assumes "extends s s'"
  shows "problem s' = problem s" "kind s' = kind s" "verbosity s' = verbosity s"
    "options s' = options s" "engine_state s' = engine_state s"
    "current_solution s' = current_solution s" "trace s' = trace s"
    "\<exists>cs. assertions s' = assertions s @ cs" "\<exists>ts. targets s' = targets s @ ts"
    "set (assertions s) \<subseteq> set (assertions s')" "set (targets s) \<subseteq> set (targets s')"
  using assms unfolding extends_def by auto

lemma extends_minimize:
  "kind s = Optimize \<Longrightarrow> \<exists>s'. solver_minimize a s = Inr s' \<and> extends s s'"
  unfolding solver_minimize_def extends_def
  by (simp, rule exI [of _ "[]"], rule exI [of _ "[Minimize a]"]) simp

lemma extends_maximize:
  "kind s = Optimize \<Longrightarrow> \<exists>s'. solver_maximize a s = Inr s' \<and> extends s s'"
  unfolding solver_maximize_def extends_def
  by (simp, rule exI [of _ "[]"], rule exI [of _ "[Maximize a]"]) simp

lemma create_objective_extends:
  assumes "kind s = Optimize"
  shows "\<exists>s'. create_objective tsks obj s = Inr s' \<and> extends s s'"
proof (cases obj)
  case MAKESPAN
  then show ?thesis using assms by (simp add: extends_minimize)
next
  case LATEST
  let ?mini = "IntVar ''SmallestStartTime''"
  let ?s1 = "solver_add [Or (map (\<lambda>t. Eq ?mini (task_start t)) tsks)] s"
  let ?s2 = "fold (\<lambda>tsk. solver_add [Le ?mini (task_start tsk)]) tsks ?s1"
  have e: "extends s ?s2"
    by (rule extends_trans [OF extends_solver_add extends_fold_solver_add])
  then have "kind ?s2 = Optimize"
    using assms extends_fields(2) [OF e] by simp
  then obtain s' where "solver_maximize ?mini ?s2 = Inr s'" "extends ?s2 s'"
    using extends_maximize by blast
  with e LATEST show ?thesis
    by (auto simp: Let_def intro: extends_trans)
next
  case FLOWTIME
  let ?s1 = "solver_add [Eq (IntVar ''FlowTime'') (z3_Sum (map task_end tsks))] s"
  have e: "extends s ?s1"
    by (rule extends_solver_add)
  then have "kind ?s1 = Optimize"
    using assms by simp
  then obtain s' where "solver_minimize (IntVar ''FlowTime'') ?s1 = Inr s'" "extends ?s1 s'"
    using extends_minimize by blast
  with e FLOWTIME show ?thesis
    by (auto simp: Let_def intro: extends_trans)
next
  case EARLIEST
  let ?maxi = "IntVar ''GreatestStartTime''"
  let ?s1 = "solver_add [Or (map (\<lambda>t. Eq ?maxi (task_start t)) tsks)] s"
  let ?s2 = "fold (\<lambda>tsk. solver_add [Ge ?maxi (task_start tsk)]) tsks ?s1"
  have e: "extends s ?s2"
    by (rule extends_trans [OF extends_solver_add extends_fold_solver_add])
  then have "kind ?s2 = Optimize"
    using assms extends_fields(2) [OF e] by simp
  then obtain s' where "solver_minimize ?maxi ?s2 = Inr s'" "extends ?s2 s'"
    using extends_minimize by blast
  with e EARLIEST show ?thesis
    by (auto simp: Let_def intro: extends_trans)
qed

lemma for_each_create_objective_extends:
  assumes "kind s = Optimize \<or> objs = []"
  shows "\<exists>s'. for_each (create_objective tsks) objs s = Inr s' \<and> extends s s'"
  using assms
proof (induction objs arbitrary: s)
  case Nil
  show ?case by (simp add: extends_refl)
next
  case (Cons obj objs)
  then have k: "kind s = Optimize" by simp
  then obtain s1 where s1: "create_objective tsks obj s = Inr s1" "extends s s1"
    using create_objective_extends by blast
  then have "kind s1 = Optimize"
    using k extends_fields(2) by metis
  then obtain s' where "for_each (create_objective tsks) objs s1 = Inr s'" "extends s1 s'"
    using Cons.IH by blast
  with s1 show ?case
    by (auto intro: extends_trans)
qed

lemma solver_add_Nil: "solver_add [] s = s"
  by (simp add: solver_add_def)

lemma solver_add_solver_add: "solver_add ds (solver_add cs s) = solver_add (cs @ ds) s"
  by (simp add: solver_add_def)

lemma fold_staging:
  assumes "\<And>x s. f x s = solver_add (g (problem s) x) s"
  shows "fold f xs s = solver_add (concat (map (g (problem s)) xs)) s"
proof (induction xs arbitrary: s)
  case Nil
  show ?case by (simp add: solver_add_Nil)
next
  case (Cons x xs)
  have "fold f (x # xs) s = fold f xs (f x s)"
    by simp
  also have "f x s = solver_add (g (problem s) x) s"
    by (rule assms)
  also have "fold f xs (solver_add (g (problem s) x) s)
      = solver_add (concat (map (g (problem (solver_add (g (problem s) x) s))) xs))
          (solver_add (g (problem s) x) s)"
    by (rule Cons.IH)
  finally show ?case
    by (simp add: solver_add_solver_add)
qed

lemma add_task_staging: "add_task t s = solver_add (task_constraints (horizon (problem s)) t) s"
  by (simp add: add_task_def task_constraints_def Let_def solver_add_solver_add)

lemma add_entities_staging:
  "add_entities s = solver_add (entity_constraints (problem s)) s"
proof -
  have 1: "fold add_task ts s = solver_add (concat (map (task_constraints (horizon (problem s))) ts)) s"
    for ts and s :: "'a SchedulingSolver"
    by (rule fold_staging [where g = "\<lambda>p. task_constraints (horizon p)"]) (rule add_task_staging)
  have 2: "fold (\<lambda>c. solver_add [c]) cs s = solver_add cs s"
    for cs and s :: "'a SchedulingSolver"
    using fold_staging [where f = "\<lambda>c. solver_add [c]" and g = "\<lambda>p c. [c]" and xs = cs and s = s]
    by simp
  have 3: "fold (\<lambda>r. solver_add (resource_assertions r)) rs s
             = solver_add (concat (map resource_assertions rs)) s"
    for rs :: "resource list" and s :: "'a SchedulingSolver"
    using fold_staging [where f = "\<lambda>r. solver_add (resource_assertions r)"
        and g = "\<lambda>p r. resource_assertions r" and xs = rs and s = s]
    by simp
  show ?thesis
    by (simp add: add_entities_def entity_constraints_def Let_def 1 2 3 solver_add_solver_add)
qed

text \<open>The inner loop of the work-amount pass.\<close>

lemma aval_z3_Sum: "aval m (z3_Sum as) = sum_list (map (aval m) as)"
  by (simp add: z3_Sum_def)

lemma work_contributions_registered:
  assumes "list_all (\<lambda>r. map_of (busy_intervals r) (task_name t) \<noteq> None) rs"
  shows "\<exists>cs. work_contributions t rs acc = Inr (acc @ cs) \<and>
           (\<forall>m. sum_list (map (aval m) cs)
                  = sum_list (map (\<lambda>r. case map_of (busy_intervals r) (task_name t) of
                                          Some (lo, up) \<Rightarrow> productivity r * (aval m up - aval m lo)
                                        | None \<Rightarrow> 0) rs))"
  using assms
proof (induction rs arbitrary: acc)
  case Nil
  show ?case by simp
next
  case (Cons r rs)
  from Cons.prems obtain lo up where
    r: "map_of (busy_intervals r) (task_name t) = Some (lo, up)"
    by auto
  let ?c = "Mul (IntVal (productivity r)) (Sub up lo)"
  from Cons.prems Cons.IH [of "acc @ [?c]"] obtain cs where
    cs: "work_contributions t rs (acc @ [?c]) = Inr ((acc @ [?c]) @ cs)"
      "\<forall>m. sum_list (map (aval m) cs)
             = sum_list (map (\<lambda>r. case map_of (busy_intervals r) (task_name t) of
                                     Some (lo, up) \<Rightarrow> productivity r * (aval m up - aval m lo)
                                   | None \<Rightarrow> 0) rs)"
    by auto
  show ?case
    by (rule exI [of _ "?c # cs"]) (simp add: r cs)
qed

lemma work_contributions_unregistered:
  assumes "\<not> list_all (\<lambda>r. map_of (busy_intervals r) (task_name t) \<noteq> None) rs"
  shows "work_contributions t rs acc = Inl (KeyError (task_name t))"
  using assms
  by (induction rs arbitrary: acc) (auto split: option.splits)

lemma work_amount_step_registered:
  assumes "0 < work_amount t \<longrightarrow> has_busy_intervals t"
  shows "\<exists>cs. work_amount_step t s = Inr (solver_add cs s) \<and>
           list_all2 meets_work_amount cs (filter (\<lambda>t. 0 < work_amount t) [t])"
proof (cases "0 < work_amount t")
  case False
  then show ?thesis
    by (simp add: work_amount_step_def solver_add_Nil [symmetric])
next
  case True
  with assms have "list_all (\<lambda>r. map_of (busy_intervals r) (task_name t) \<noteq> None)
                     (required_resources t)"
    by (simp add: has_busy_intervals_def)
  from work_contributions_registered [OF this, of "[]"] obtain ws where
    ws: "work_contributions t (required_resources t) [] = Inr ws"
      "\<forall>m. sum_list (map (aval m) ws) = work_done m t"
    by (auto simp: work_done_def)
  have "meets_work_amount (Ge (z3_Sum ws) (IntVal (work_amount t))) t"
    by (simp add: meets_work_amount_def aval_z3_Sum ws(2))
  with True ws(1) show ?thesis
    by (intro exI [of _ "[Ge (z3_Sum ws) (IntVal (work_amount t))]"])
       (simp add: work_amount_step_def)
qed

lemma work_amount_step_unregistered:
  assumes "\<not> (0 < work_amount t \<longrightarrow> has_busy_intervals t)"
  shows "work_amount_step t s = Inl (KeyError (task_name t))"
  using assms
  by (simp add: work_amount_step_def has_busy_intervals_def work_contributions_unregistered)

lemma for_each_work_amount_step:
  assumes "list_all (\<lambda>t. 0 < work_amount t \<longrightarrow> has_busy_intervals t) ts"
  shows "\<exists>cs. for_each work_amount_step ts s = Inr (solver_add cs s) \<and>
           list_all2 meets_work_amount cs (filter (\<lambda>t. 0 < work_amount t) ts)"
  using assms
proof (induction ts arbitrary: s)
  case Nil
  show ?case by (simp add: solver_add_Nil)
next
  case (Cons t ts)
  from Cons.prems work_amount_step_registered [of t s] obtain c1 where
    c1: "work_amount_step t s = Inr (solver_add c1 s)"
      "list_all2 meets_work_amount c1 (filter (\<lambda>t. 0 < work_amount t) [t])"
    by auto
  from Cons.prems Cons.IH [of "solver_add c1 s"] obtain c2 where
    c2: "for_each work_amount_step ts (solver_add c1 s) = Inr (solver_add c2 (solver_add c1 s))"
      "list_all2 meets_work_amount c2 (filter (\<lambda>t. 0 < work_amount t) ts)"
    by auto
  have "list_all2 meets_work_amount (c1 @ c2) (filter (\<lambda>t. 0 < work_amount t) ([t] @ ts))"
    unfolding filter_append using c1(2) c2(2) by (rule list_all2_appendI)
  then show ?case
    using c1(1) c2(1) by (auto simp: solver_add_solver_add)
qed

lemma for_each_work_amount_step_Inr:
  assumes "for_each work_amount_step ts s = Inr s'"
  shows "list_all (\<lambda>t. 0 < work_amount t \<longrightarrow> has_busy_intervals t) ts"
  using assms
proof (induction ts arbitrary: s)
  case Nil
  show ?case by simp
next
  case (Cons t ts)
  then show ?case
    using work_amount_step_unregistered [of t s]
    by (cases "work_amount_step t s") auto
qed

lemma for_each_work_amount_step_Inl:
  assumes "for_each work_amount_step ts s = Inl e"
  shows "\<exists>n. e = KeyError n"
  using assms
proof (induction ts arbitrary: s)
  case Nil
  then show ?case by simp
next
  case (Cons t ts)
  show ?case
  proof (cases "0 < work_amount t \<longrightarrow> has_busy_intervals t")
    case True
    from work_amount_step_registered [OF this, of s] Cons show ?thesis
      by auto
  next
    case False
    from work_amount_step_unregistered [OF this, of s] Cons.prems show ?thesis
      by auto
  qed
qed

section \<open>Construction\<close>

lemma new_solver_fields:
  "problem (new_solver p verbose max_time parallel e0) = p"
  "verbosity (new_solver p verbose max_time parallel e0) = verbose"
  "kind (new_solver p verbose max_time parallel e0)
     = (if objectives p \<noteq> [] then Optimize else SolverFor ''QF_LIA'')"
  "assertions (new_solver p verbose max_time parallel e0) = []"
  "targets (new_solver p verbose max_time parallel e0) = []"
  "engine_state (new_solver p verbose max_time parallel e0) = e0"
  "current_solution (new_solver p verbose max_time parallel e0) = None"
  "set_solution_calls (trace (new_solver p verbose max_time parallel e0)) = []"
  by (simp_all add: new_solver_def Let_def)

lemma current_solution_None_update:
  "current_solution s = None \<Longrightarrow> s\<lparr>current_solution := None\<rparr> = s"
  by (cases s) simp

lemma init_Inr_structure:
  assumes "init p verbose max_time parallel e0 = Inr s"
  shows "\<exists>ws s4. list_all2 meets_work_amount ws (filter (\<lambda>t. 0 < work_amount t) (get_tasks p))
           \<and> s4 = solver_add (entity_constraints p @ ws) (new_solver p verbose max_time parallel e0)
           \<and> for_each (create_objective (get_tasks p)) (objectives p) s4 = Inr s
           \<and> extends s4 s"
proof -
  let ?n = "new_solver p verbose max_time parallel e0"
  let ?s3 = "solver_add (entity_constraints p) ?n"
  have s3: "add_entities ?n = ?s3"
    by (simp add: add_entities_staging new_solver_fields)
  from assms obtain s4 s5 where
    s4: "for_each work_amount_step (get_tasks p) ?s3 = Inr s4"
    and s5: "create_objectives s4 = Inr s5"
    and s: "s = s5\<lparr>current_solution := None\<rparr>"
    by (auto simp: init_def s3 process_work_amount_def new_solver_fields split: sum.splits)
  from for_each_work_amount_step [OF for_each_work_amount_step_Inr [OF s4], of ?s3] s4
  obtain ws where
    ws: "s4 = solver_add ws ?s3"
      "list_all2 meets_work_amount ws (filter (\<lambda>t. 0 < work_amount t) (get_tasks p))"
    by auto
  have p4: "problem s4 = p" "kind s4 = kind ?n" "current_solution s4 = None"
    by (simp_all add: ws(1) new_solver_fields)
  from s5 have f: "for_each (create_objective (get_tasks p)) (objectives p) s4 = Inr s5"
    by (simp add: create_objectives_def p4)
  have "kind s4 = Optimize \<or> objectives p = []"
    by (simp add: p4 new_solver_fields)
  from for_each_create_objective_extends [OF this, of "get_tasks p"] f
  have e: "extends s4 s5"
    by simp
  then have "current_solution s5 = None"
    using p4 by (simp add: extends_fields)
  with s have "s = s5"
    by (simp add: current_solution_None_update)
  with ws f e show ?thesis
    by (auto simp: solver_add_solver_add)
qed

lemma init_registered:
  assumes "busy_intervals_registered p"
  shows "\<exists>s. init p verbose max_time parallel e0 = Inr s"
proof -
  let ?n = "new_solver p verbose max_time parallel e0"
  let ?s3 = "solver_add (entity_constraints p) ?n"
  have s3: "add_entities ?n = ?s3"
    by (simp add: add_entities_staging new_solver_fields)
  from assms for_each_work_amount_step [of "get_tasks p" ?s3] obtain ws where
    ws: "for_each work_amount_step (get_tasks p) ?s3 = Inr (solver_add ws ?s3)"
    by (auto simp: busy_intervals_registered_def)
  let ?s4 = "solver_add ws ?s3"
  have "kind ?s4 = Optimize \<or> objectives p = []"
    by (simp add: new_solver_fields)
  from for_each_create_objective_extends [OF this, of "get_tasks p"] obtain s5 where
    "for_each (create_objective (get_tasks p)) (objectives p) ?s4 = Inr s5"
    by blast
  then show ?thesis
    by (simp add: init_def s3 process_work_amount_def new_solver_fields ws create_objectives_def)
qed

lemma init_Inl:
  assumes "init p verbose max_time parallel e0 = Inl e"
  shows "\<exists>n. e = KeyError n"
proof (cases "busy_intervals_registered p")
  case True
  from init_registered [OF this, of verbose max_time parallel e0] assms show ?thesis
    by auto
next
  case False
  let ?n = "new_solver p verbose max_time parallel e0"
  let ?s3 = "solver_add (entity_constraints p) ?n"
  have s3: "add_entities ?n = ?s3"
    by (simp add: add_entities_staging new_solver_fields)
  from False for_each_work_amount_step_Inr [of "get_tasks p" ?s3]
  obtain e' where e': "for_each work_amount_step (get_tasks p) ?s3 = Inl e'"
    by (cases "for_each work_amount_step (get_tasks p) ?s3")
       (auto simp: busy_intervals_registered_def)
  with assms have "e = e'"
    by (simp add: init_def s3 process_work_amount_def new_solver_fields)
  with for_each_work_amount_step_Inl [OF e'] show ?thesis
    by simp
qed

section \<open>Work-amount constraints\<close>

text \<open>
  Claim C1.  On a problem whose resources have a busy interval for each task that
  requires them, \<^verbatim>\<open>process_work_amount\<close> raises nothing and stages, after the constraints
  already there, one constraint for each task with a positive work amount, in the order
  of the tasks, and nothing for the other tasks.  A model satisfies the constraint of a
  task exactly when the sum over the task's required resources of productivity times
  (busy-interval upper bound minus lower bound) is at least the task's work amount.
\<close>

theorem process_work_amount_constraints:
  assumes "busy_intervals_registered (problem s)"
  shows "\<exists>cs. process_work_amount s = Inr (s\<lparr>assertions := assertions s @ cs\<rparr>)
           \<and> list_all2 (\<lambda>c t. \<forall>m. bval m c \<longleftrightarrow> work_amount t \<le> work_done m t)
                cs (filter (\<lambda>t. 0 < work_amount t) (get_tasks (problem s)))"
proof -
  from assms for_each_work_amount_step [of "get_tasks (problem s)" s] obtain cs where
    "for_each work_amount_step (get_tasks (problem s)) s = Inr (solver_add cs s)"
    "list_all2 meets_work_amount cs (filter (\<lambda>t. 0 < work_amount t) (get_tasks (problem s)))"
    by (auto simp: busy_intervals_registered_def)
  then show ?thesis
    unfolding process_work_amount_def solver_add_def meets_work_amount_def by blast
qed

theorem process_work_amount_constraints_witness:
  "busy_intervals_registered pb
   \<and> (\<exists>c. process_work_amount (add_entities (new_solver pb False 60 False (None :: model option)))
            = Inr (solver_add [c] (add_entities (new_solver pb False 60 False None)))
          \<and> (\<forall>m. bval m c \<longleftrightarrow> 4 \<le> 2 * (aval m (IntVar ''be'') - aval m (IntVar ''bs''))))"
proof -
  let ?s = "add_entities (new_solver pb False 60 False (None :: model option))"
  have p: "problem ?s = pb"
    by (simp add: add_entities_staging new_solver_fields)
  have r: "busy_intervals_registered pb"
    by code_simp
  have f: "filter (\<lambda>t. 0 < work_amount t) (get_tasks pb) = [task1]"
    by (simp add: pb_def task1_def)
  have w: "work_done m task1 = 2 * (aval m (IntVar ''be'') - aval m (IntVar ''bs''))" for m
    by (simp add: work_done_def task1_def worker1_def)
  have a: "work_amount task1 = 4"
    by (simp add: task1_def)
  from process_work_amount_constraints [of ?s] r obtain cs where
    cs: "process_work_amount ?s = Inr (?s\<lparr>assertions := assertions ?s @ cs\<rparr>)"
      "list_all2 (\<lambda>c t. \<forall>m. bval m c \<longleftrightarrow> work_amount t \<le> work_done m t) cs [task1]"
    unfolding p f by blast
  from cs(2) obtain c where "cs = [c]" "\<forall>m. bval m c \<longleftrightarrow> work_amount task1 \<le> work_done m task1"
    by (auto simp: list_all2_Cons2)
  with cs(1) r show ?thesis
    unfolding w a solver_add_def by blast
qed

section \<open>Choice of the engine\<close>

text \<open>
  Claim C8.  The constructor chooses the optimizing engine object when the problem has
  at least one objective and the plain decision procedure for \<^verbatim>\<open>QF_LIA\<close> otherwise.
  With this choice the construction goes through on every problem that respects the
  busy-interval invariant, whatever its objectives, and the only exception it can raise
  at all is the \<^verbatim>\<open>KeyError\<close> of a missing busy interval: never a missing \<^verbatim>\<open>minimize\<close> or
  \<^verbatim>\<open>maximize\<close>.  The constructed solver has the engine object chosen at the start: with
  an objective it is the optimizing one, on which \<^verbatim>\<open>minimize\<close> and \<^verbatim>\<open>maximize\<close> succeed;
  without objectives it is the plain one, it has no optimization target, and \<^verbatim>\<open>minimize\<close>
  and \<^verbatim>\<open>maximize\<close> do not exist on it.
\<close>

theorem engine_kind_by_objectives:
  "(objectives p \<noteq> [] \<longrightarrow> kind (new_solver p verbose max_time parallel e0) = Optimize)
   \<and> (objectives p = [] \<longrightarrow>
        kind (new_solver p verbose max_time parallel e0) = SolverFor ''QF_LIA'')
   \<and> (busy_intervals_registered p \<longrightarrow> (\<exists>s. init p verbose max_time parallel e0 = Inr s))
   \<and> (\<forall>e. init p verbose max_time parallel e0 = Inl e \<longrightarrow> (\<exists>n. e = KeyError n))
   \<and> (\<forall>s. init p verbose max_time parallel e0 = Inr s \<longrightarrow>
        kind s = kind (new_solver p verbose max_time parallel e0)
        \<and> (objectives p \<noteq> [] \<longrightarrow>
              kind s = Optimize
              \<and> (\<forall>a. solver_minimize a s = Inr (s\<lparr>targets := targets s @ [Minimize a]\<rparr>))
              \<and> (\<forall>a. solver_maximize a s = Inr (s\<lparr>targets := targets s @ [Maximize a]\<rparr>)))
        \<and> (objectives p = [] \<longrightarrow>
              kind s = SolverFor ''QF_LIA''
              \<and> targets s = []
              \<and> (\<forall>a. solver_minimize a s = Inl (AttributeError ''minimize''))
              \<and> (\<forall>a. solver_maximize a s = Inl (AttributeError ''maximize''))))"
proof -
  let ?n = "new_solver p verbose max_time parallel e0"
  have 1: "objectives p \<noteq> [] \<longrightarrow> kind ?n = Optimize"
    and 2: "objectives p = [] \<longrightarrow> kind ?n = SolverFor ''QF_LIA''"
    by (simp_all add: new_solver_fields)
  have 3: "busy_intervals_registered p \<longrightarrow> (\<exists>s. init p verbose max_time parallel e0 = Inr s)"
    using init_registered [of p verbose max_time parallel e0] by blast
  have 4: "\<forall>e. init p verbose max_time parallel e0 = Inl e \<longrightarrow> (\<exists>n. e = KeyError n)"
    using init_Inl [of p verbose max_time parallel e0] by blast
  have 5: "kind s = kind ?n
        \<and> (objectives p \<noteq> [] \<longrightarrow>
              kind s = Optimize
              \<and> (\<forall>a. solver_minimize a s = Inr (s\<lparr>targets := targets s @ [Minimize a]\<rparr>))
              \<and> (\<forall>a. solver_maximize a s = Inr (s\<lparr>targets := targets s @ [Maximize a]\<rparr>)))
        \<and> (objectives p = [] \<longrightarrow>
              kind s = SolverFor ''QF_LIA''
              \<and> targets s = []
              \<and> (\<forall>a. solver_minimize a s = Inl (AttributeError ''minimize''))
              \<and> (\<forall>a. solver_maximize a s = Inl (AttributeError ''maximize'')))"
    if i: "init p verbose max_time parallel e0 = Inr s" for s
  proof -
    from init_Inr_structure [OF i] obtain ws s4 where
      s4: "s4 = solver_add (entity_constraints p @ ws) ?n"
      and f: "for_each (create_objective (get_tasks p)) (objectives p) s4 = Inr s"
      and e: "extends s4 s"
      by blast
    have k: "kind s = kind ?n"
      using extends_fields(2) [OF e] by (simp add: s4)
    have "objectives p = [] \<longrightarrow> targets s = []"
      using f by (auto simp: s4 new_solver_fields)
    with k 1 2 show ?thesis
      by (simp add: solver_minimize_def solver_maximize_def)
  qed
  from 1 2 3 4 5 show ?thesis
    by blast
qed

theorem engine_kind_by_objectives_witness:
  "objectives pb \<noteq> [] \<and> busy_intervals_registered pb
   \<and> kind (new_solver pb False 60 False (None :: model option)) = Optimize
   \<and> init pb False 60 False None = Inr S0 \<and> kind S0 = Optimize
   \<and> objectives idle_pb = [] \<and> busy_intervals_registered idle_pb
   \<and> kind (new_solver idle_pb False 60 False (None :: model option)) = SolverFor ''QF_LIA''
   \<and> init idle_pb False 60 False None = Inr I0
   \<and> kind I0 = SolverFor ''QF_LIA'' \<and> targets I0 = []
   \<and> solver_maximize (IntVar ''s1'') I0 = Inl (AttributeError ''maximize'')"
proof -
  have a: "objectives pb \<noteq> []" "busy_intervals_registered pb"
    by code_simp+
  have b: "objectives idle_pb = []" "busy_intervals_registered idle_pb"
    by code_simp+
  from engine_kind_by_objectives [of pb False 60 False "None :: model option"] a
  have c: "kind (new_solver pb False 60 False (None :: model option)) = Optimize"
    and "\<exists>s. init pb False 60 False (None :: model option) = Inr s"
    by blast+
  then have d: "init pb False 60 False None = Inr S0"
    unfolding S0_def by auto
  from engine_kind_by_objectives [of pb False 60 False "None :: model option"] a d
  have e: "kind S0 = Optimize"
    by blast
  from engine_kind_by_objectives [of idle_pb False 60 False "None :: model option"] b
  have f: "kind (new_solver idle_pb False 60 False (None :: model option)) = SolverFor ''QF_LIA''"
    and "\<exists>s. init idle_pb False 60 False (None :: model option) = Inr s"
    by blast+
  then have g: "init idle_pb False 60 False None = Inr I0"
    unfolding I0_def by auto
  from engine_kind_by_objectives [of idle_pb False 60 False "None :: model option"] b g
  have h: "kind I0 = SolverFor ''QF_LIA''" "targets I0 = []"
    "solver_maximize (IntVar ''s1'') I0 = Inl (AttributeError ''maximize'')"
    by blast+
  from a b c d e f g h show ?thesis
    by blast
qed


section \<open>The LATEST objective\<close>

text \<open>What one pass of the loop body does for LATEST, and where it ends up.\<close>

lemma latest_step:
  assumes "kind s = Optimize"
  shows "create_objective tsks LATEST s
           = Inr (s\<lparr>assertions := assertions s
                      @ Or (map (\<lambda>t. Eq (IntVar ''SmallestStartTime'') (task_start t)) tsks)
                      # map (\<lambda>t. Le (IntVar ''SmallestStartTime'') (task_start t)) tsks,
                    targets := targets s @ [Maximize (IntVar ''SmallestStartTime'')]\<rparr>)"
proof -
  have "fold (\<lambda>tsk. solver_add [Le (IntVar ''SmallestStartTime'') (task_start tsk)]) tsks s'
          = solver_add (map (\<lambda>t. Le (IntVar ''SmallestStartTime'') (task_start t)) tsks) s'"
    for s' :: "'a SchedulingSolver"
    using fold_staging [where f = "\<lambda>tsk. solver_add [Le (IntVar ''SmallestStartTime'') (task_start tsk)]"
        and g = "\<lambda>p t. [Le (IntVar ''SmallestStartTime'') (task_start t)]" and xs = tsks and s = s']
    by simp
  then show ?thesis
    using assms by (simp add: Let_def solver_maximize_def solver_add_def)
qed

lemma for_each_create_objective_member:
  assumes "kind s = Optimize" and "obj \<in> set objs"
    and "for_each (create_objective tsks) objs s = Inr s'"
  shows "\<exists>s1 s2. extends s s1 \<and> create_objective tsks obj s1 = Inr s2 \<and> extends s2 s'"
  using assms
proof (induction objs arbitrary: s)
  case Nil
  then show ?case by simp
next
  case (Cons ob objs)
  from create_objective_extends [OF Cons.prems(1), of tsks ob] obtain sa where
    sa: "create_objective tsks ob s = Inr sa" "extends s sa"
    by blast
  then have ka: "kind sa = Optimize"
    using Cons.prems(1) by (simp add: extends_fields)
  from sa Cons.prems(3) have rest: "for_each (create_objective tsks) objs sa = Inr s'"
    by simp
  show ?case
  proof (cases "obj = ob")
    case True
    from for_each_create_objective_extends [of sa objs tsks] ka rest have "extends sa s'"
      by auto
    with sa True show ?thesis
      using extends_refl by blast
  next
    case False
    with Cons.prems(2) have "obj \<in> set objs"
      by simp
    from Cons.IH [OF ka this rest] obtain s1 s2 where
      "extends sa s1" "create_objective tsks obj s1 = Inr s2" "extends s2 s'"
      by blast
    with sa(2) show ?thesis
      using extends_trans by blast
  qed
qed

text \<open>
  Claim C7.  When LATEST is among the objectives of the problem, the constructed solver
  maximizes the auxiliary integer variable \<^verbatim>\<open>SmallestStartTime\<close>, has staged the
  disjunction over all tasks of "the variable equals the task's start", and has staged
  for every task "the variable is at most the task's start"; so in every model of the
  staged constraints there is a task and the variable is the smallest start.  Each time
  the loop over the objectives meets LATEST it stages exactly the disjunction followed
  by one inequality per task, and adds exactly the one maximization target.
\<close>

theorem latest_objective_encoding:
  assumes "init p verbose max_time parallel e0 = Inr s" and "LATEST \<in> set (objectives p)"
  shows "Maximize (IntVar ''SmallestStartTime'') \<in> set (targets s)
       \<and> Or (map (\<lambda>t. Eq (IntVar ''SmallestStartTime'') (task_start t)) (get_tasks p))
           \<in> set (assertions s)
       \<and> (\<forall>t\<in>set (get_tasks p).
            Le (IntVar ''SmallestStartTime'') (task_start t) \<in> set (assertions s))
       \<and> (\<forall>m. satisfies m (assertions s) \<longrightarrow>
            get_tasks p \<noteq> []
            \<and> aval m (IntVar ''SmallestStartTime'')
                = Min ((\<lambda>t. aval m (task_start t)) ` set (get_tasks p)))
       \<and> (\<forall>tsks s0 :: 'a SchedulingSolver. kind s0 = Optimize \<longrightarrow>
            create_objective tsks LATEST s0
              = Inr (s0\<lparr>assertions := assertions s0
                          @ Or (map (\<lambda>t. Eq (IntVar ''SmallestStartTime'') (task_start t)) tsks)
                          # map (\<lambda>t. Le (IntVar ''SmallestStartTime'') (task_start t)) tsks,
                        targets := targets s0 @ [Maximize (IntVar ''SmallestStartTime'')]\<rparr>))"
proof -
  let ?mini = "IntVar ''SmallestStartTime''"
  let ?d = "Or (map (\<lambda>t. Eq ?mini (task_start t)) (get_tasks p))"
  from init_Inr_structure [OF assms(1)] obtain ws s4 where
    s4: "s4 = solver_add (entity_constraints p @ ws) (new_solver p verbose max_time parallel e0)"
    and f: "for_each (create_objective (get_tasks p)) (objectives p) s4 = Inr s"
    by blast
  from assms(2) have k: "kind s4 = Optimize"
    by (auto simp: s4 new_solver_fields)
  from for_each_create_objective_member [OF k assms(2) f] obtain s1 s2 where
    s1: "extends s4 s1" and s2: "create_objective (get_tasks p) LATEST s1 = Inr s2"
    and e: "extends s2 s"
    by blast
  have "kind s1 = Optimize"
    using k s1 by (simp add: extends_fields)
  from s2 [unfolded latest_step [OF this]]
  have "Maximize ?mini \<in> set (targets s2)" "?d \<in> set (assertions s2)"
    "\<forall>t\<in>set (get_tasks p). Le ?mini (task_start t) \<in> set (assertions s2)"
    by auto
  with extends_fields(10,11) [OF e]
  have 1: "Maximize ?mini \<in> set (targets s)" and 2: "?d \<in> set (assertions s)"
    and 3: "\<forall>t\<in>set (get_tasks p). Le ?mini (task_start t) \<in> set (assertions s)"
    by auto
  have 4: "get_tasks p \<noteq> [] \<and> aval m ?mini = Min ((\<lambda>t. aval m (task_start t)) ` set (get_tasks p))"
    if m: "satisfies m (assertions s)" for m
  proof -
    from m have all: "\<forall>a\<in>set (assertions s). bval m a"
      by (simp add: satisfies_def list_all_iff)
    with 2 have "bval m ?d"
      by blast
    then have ex: "\<exists>t\<in>set (get_tasks p). aval m ?mini = aval m (task_start t)"
      by (auto simp: list_ex_iff)
    have le: "\<forall>t\<in>set (get_tasks p). aval m ?mini \<le> aval m (task_start t)"
    proof
      fix t assume "t \<in> set (get_tasks p)"
      with 3 all have "bval m (Le ?mini (task_start t))"
        by blast
      then show "aval m ?mini \<le> aval m (task_start t)"
        by simp
    qed
    from ex have ne: "get_tasks p \<noteq> []"
      by auto
    have "Min ((\<lambda>t. aval m (task_start t)) ` set (get_tasks p)) = aval m ?mini"
      using ex le by (intro Min_eqI) auto
    with ne show ?thesis
      by simp
  qed
  have 5: "\<forall>tsks s0 :: 'a SchedulingSolver. kind s0 = Optimize \<longrightarrow>
            create_objective tsks LATEST s0
              = Inr (s0\<lparr>assertions := assertions s0
                          @ Or (map (\<lambda>t. Eq (IntVar ''SmallestStartTime'') (task_start t)) tsks)
                          # map (\<lambda>t. Le (IntVar ''SmallestStartTime'') (task_start t)) tsks,
                        targets := targets s0 @ [Maximize (IntVar ''SmallestStartTime'')]\<rparr>)"
    using latest_step by blast
  from 1 2 3 4 5 show ?thesis
    by blast
qed

theorem latest_objective_encoding_witness:
  "init pb False 60 False None = Inr S0 \<and> LATEST \<in> set (objectives pb)
   \<and> targets S0 = [Maximize (IntVar ''SmallestStartTime'')]
   \<and> Or [Eq (IntVar ''SmallestStartTime'') (IntVar ''s1'')] \<in> set (assertions S0)
   \<and> Le (IntVar ''SmallestStartTime'') (IntVar ''s1'') \<in> set (assertions S0)
   \<and> satisfies m1 (assertions S0)
   \<and> aval m1 (IntVar ''SmallestStartTime'') = Min {aval m1 (IntVar ''s1'')}"
proof -
  have a: "init pb False 60 False None = Inr S0" "LATEST \<in> set (objectives pb)"
    unfolding S0_def by code_simp+
  have b: "get_tasks pb = [task1]" "task_start task1 = IntVar ''s1''"
    by (simp_all add: pb_def task1_def)
  have c: "satisfies m1 (assertions S0)" "targets S0 = [Maximize (IntVar ''SmallestStartTime'')]"
    by code_simp+
  from latest_objective_encoding [OF a]
  have d: "Or (map (\<lambda>t. Eq (IntVar ''SmallestStartTime'') (task_start t)) (get_tasks pb))
             \<in> set (assertions S0)"
    and e: "\<forall>t\<in>set (get_tasks pb).
              Le (IntVar ''SmallestStartTime'') (task_start t) \<in> set (assertions S0)"
    and f: "\<forall>m. satisfies m (assertions S0) \<longrightarrow>
              aval m (IntVar ''SmallestStartTime'')
                = Min ((\<lambda>t. aval m (task_start t)) ` set (get_tasks pb))"
    by blast+
  from f c(1) have "aval m1 (IntVar ''SmallestStartTime'')
                      = Min ((\<lambda>t. aval m1 (task_start t)) ` set (get_tasks pb))"
    by blast
  then have g: "aval m1 (IntVar ''SmallestStartTime'') = Min {aval m1 (IntVar ''s1'')}"
    by (simp add: b)
  from d e have "Or [Eq (IntVar ''SmallestStartTime'') (IntVar ''s1'')] \<in> set (assertions S0)"
    "Le (IntVar ''SmallestStartTime'') (IntVar ''s1'') \<in> set (assertions S0)"
    by (simp_all add: b)
  with a c g show ?thesis
    by blast
qed

section \<open>Invariants of sequences of calls\<close>

lemma solve_set_solution_calls:
  "set_solution_calls (trace (snd (solve eng s)))
     = set_solution_calls (trace s)
         @ (if fst (check_sat eng s)
            then [model_of eng (snd (check eng (kind s) (assertions s) (targets s) (engine_state s)))]
            else [])"
  by (simp add: solve_trace set_solution_calls_append set_solution_calls_map_none
      set_solution_calls_check_sat Let_def)

lemma solve_retained:
  assumes "engine_sound eng" and "retained_satisfies A s"
  shows "retained_satisfies A (snd (solve eng s))"
proof (cases "fst (check_sat eng s)")
  case False
  with assms(2) show ?thesis
    by (simp add: retained_satisfies_def solve_frame solve_current_solution
        solve_set_solution_calls)
next
  case True
  let ?m = "model_of eng (snd (check eng (kind s) (assertions s) (targets s) (engine_state s)))"
  from True solve_model_satisfies [OF assms(1), of s]
  have "satisfies ?m (assertions s)"
    by (simp add: solve_fst solve_current_solution)
  with assms(2) have "\<forall>a\<in>A. bval ?m a"
    by (auto simp: retained_satisfies_def satisfies_def list_all_iff)
  with True assms(2) show ?thesis
    by (auto simp: retained_satisfies_def solve_frame solve_current_solution
        solve_set_solution_calls)
qed

lemma solver_add_retained:
  "retained_satisfies A s \<Longrightarrow> retained_satisfies A (solver_add cs s)"
  by (auto simp: retained_satisfies_def)

lemma find_another_solution_Some:
  assumes "current_solution s = Some cur" and "find_another_solution eng v s = Inr (b, s')"
  shows "\<exists>c. model_getitem_as_long cur v = Inr c
           \<and> b = fst (solve eng (solver_add [Ne v (IntVal c)] s))
           \<and> s' = snd (solve eng (solver_add [Ne v (IntVal c)] s))"
  using assms
  by (cases "model_getitem_as_long cur v") (auto simp: find_another_solution_def)

lemma find_another_solution_retained:
  assumes "engine_sound eng" and "retained_satisfies A s"
    and "find_another_solution eng v s = Inr (b, s')"
  shows "retained_satisfies A s'"
proof (cases "current_solution s")
  case None
  with assms(2,3) show ?thesis
    by (auto simp: find_another_solution_def retained_satisfies_def set_solution_calls_append)
next
  case (Some cur)
  from find_another_solution_Some [OF this assms(3)] obtain c where
    "s' = snd (solve eng (solver_add [Ne v (IntVal c)] s))"
    by blast
  with solve_retained [OF assms(1) solver_add_retained [OF assms(2)]] show ?thesis
    by simp
qed

lemma do_call_retained:
  assumes "engine_sound eng" and "retained_satisfies A s" and "do_call eng c s = Inr s'"
  shows "retained_satisfies A s'"
proof (cases c)
  case Solve
  with assms(3) solve_retained [OF assms(1,2)] show ?thesis
    by auto
next
  case (FindAnotherSolution v)
  with assms(3) obtain b where "find_another_solution eng v s = Inr (b, s')"
    by (auto split: sum.splits)
  from find_another_solution_retained [OF assms(1,2) this] show ?thesis .
qed

lemma run_retained:
  assumes "engine_sound eng" and "retained_satisfies A s" and "run eng calls s = Inr s'"
  shows "retained_satisfies A s'"
  using assms(2,3) unfolding run_def
proof (induction calls arbitrary: s)
  case Nil
  then show ?case by simp
next
  case (Cons c calls)
  from Cons.prems(2) obtain s1 where
    s1: "do_call eng c s = Inr s1" "for_each (do_call eng) calls s1 = Inr s'"
    by (auto split: sum.splits)
  from Cons.IH [OF do_call_retained [OF assms(1) Cons.prems(1) s1(1)] s1(2)] show ?case .
qed

lemma find_another_solution_assertions:
  assumes "find_another_solution eng v s = Inr (b, s')"
  shows "set (assertions s) \<subseteq> set (assertions s')"
proof (cases "current_solution s")
  case None
  with assms show ?thesis
    by (auto simp: find_another_solution_def)
next
  case (Some cur)
  from find_another_solution_Some [OF this assms] show ?thesis
    by (auto simp: solve_frame)
qed

lemma do_call_assertions:
  assumes "do_call eng c s = Inr s'"
  shows "set (assertions s) \<subseteq> set (assertions s')"
proof (cases c)
  case Solve
  with assms show ?thesis
    by (auto simp: solve_frame)
next
  case (FindAnotherSolution v)
  with assms obtain b where "find_another_solution eng v s = Inr (b, s')"
    by (auto split: sum.splits)
  from find_another_solution_assertions [OF this] show ?thesis .
qed

lemma run_assertions:
  assumes "run eng calls s = Inr s'"
  shows "set (assertions s) \<subseteq> set (assertions s')"
  using assms unfolding run_def
proof (induction calls arbitrary: s)
  case Nil
  then show ?case by simp
next
  case (Cons c calls)
  from Cons.prems obtain s1 where
    s1: "do_call eng c s = Inr s1" "for_each (do_call eng) calls s1 = Inr s'"
    by (auto split: sum.splits)
  from do_call_assertions [OF s1(1)] Cons.IH [OF s1(2)] show ?case
    by blast
qed

lemma model_getitem_as_long_Inr:
  "model_getitem_as_long m v = Inr c \<Longrightarrow> aval m v = c"
  by (cases v) (auto split: option.splits)

lemma init_retained:
  assumes "init p verbose max_time parallel e0 = Inr s"
  shows "retained_satisfies (set (assertions s)) s"
proof -
  from init_Inr_structure [OF assms] obtain ws s4 where
    s4: "s4 = solver_add (entity_constraints p @ ws) (new_solver p verbose max_time parallel e0)"
    and e: "extends s4 s"
    by blast
  have "current_solution s = None" "set_solution_calls (trace s) = []"
    using extends_fields(6,7) [OF e] by (simp_all add: s4 new_solver_fields)
  then show ?thesis
    by (simp add: retained_satisfies_def)
qed

lemma init_entity_constraints:
  assumes "init p verbose max_time parallel e0 = Inr s"
  shows "set (entity_constraints p) \<subseteq> set (assertions s)"
proof -
  from init_Inr_structure [OF assms] obtain ws s4 where
    s4: "s4 = solver_add (entity_constraints p @ ws) (new_solver p verbose max_time parallel e0)"
    and e: "extends s4 s"
    by blast
  from extends_fields(10) [OF e] show ?thesis
    by (auto simp: s4)
qed

section \<open>Default bounds of a task\<close>

text \<open>
  Claim C9.  For every task of the problem the constructed solver has staged
  \<open>end \<ge> 0\<close>, has staged \<open>start \<ge> 0\<close> unless the task is lower bounded, and has staged
  \<open>end \<le> horizon\<close> unless the task is upper bounded; the solver's own contribution for a
  task is the task's assertions followed by exactly these bounds.  Consequently, with an
  engine whose models satisfy the staged constraints, after any sequence of calls the
  retained model and every model handed to \<open>set_solution\<close> give a task with default
  bounds a start of at least 0 and an end between 0 and the horizon.
\<close>

theorem default_task_bounds:
  assumes "init p verbose max_time parallel e0 = Inr s" and "t \<in> set (get_tasks p)"
  shows "Ge (task_end t) (IntVal 0) \<in> set (assertions s)
       \<and> (\<not> lower_bounded t \<longrightarrow> Ge (task_start t) (IntVal 0) \<in> set (assertions s))
       \<and> (\<not> upper_bounded t \<longrightarrow> Le (task_end t) (horizon p) \<in> set (assertions s))
       \<and> (\<forall>s0 :: 'a SchedulingSolver.
            assertions (add_task t s0)
              = assertions s0 @ task_assertions t @ Ge (task_end t) (IntVal 0)
                  # (if lower_bounded t then [] else [Ge (task_start t) (IntVal 0)])
                  @ (if upper_bounded t then [] else [Le (task_end t) (horizon (problem s0))]))
       \<and> (\<forall>eng calls s' m.
            engine_sound eng \<and> run eng calls s = Inr s'
            \<and> (current_solution s' = Some m \<or> m \<in> set (set_solution_calls (trace s')))
            \<longrightarrow> 0 \<le> aval m (task_end t)
                \<and> (\<not> lower_bounded t \<longrightarrow> 0 \<le> aval m (task_start t))
                \<and> (\<not> upper_bounded t \<longrightarrow> aval m (task_end t) \<le> aval m (horizon p)))"
proof -
  from assms(2) have "set (task_constraints (horizon p) t) \<subseteq> set (entity_constraints p)"
    by (auto simp: entity_constraints_def)
  with init_entity_constraints [OF assms(1)]
  have sub: "set (task_constraints (horizon p) t) \<subseteq> set (assertions s)"
    by blast
  have 1: "Ge (task_end t) (IntVal 0) \<in> set (assertions s)"
    using sub by (auto simp: task_constraints_def)
  have 2: "\<not> lower_bounded t \<longrightarrow> Ge (task_start t) (IntVal 0) \<in> set (assertions s)"
    using sub by (auto simp: task_constraints_def)
  have 3: "\<not> upper_bounded t \<longrightarrow> Le (task_end t) (horizon p) \<in> set (assertions s)"
    using sub by (auto simp: task_constraints_def)
  have 4: "assertions (add_task t s0)
              = assertions s0 @ task_assertions t @ Ge (task_end t) (IntVal 0)
                  # (if lower_bounded t then [] else [Ge (task_start t) (IntVal 0)])
                  @ (if upper_bounded t then [] else [Le (task_end t) (horizon (problem s0))])"
    for s0 :: "'a SchedulingSolver"
    by (simp add: add_task_staging task_constraints_def)
  have 5: "0 \<le> aval m (task_end t)
           \<and> (\<not> lower_bounded t \<longrightarrow> 0 \<le> aval m (task_start t))
           \<and> (\<not> upper_bounded t \<longrightarrow> aval m (task_end t) \<le> aval m (horizon p))"
    if sound: "engine_sound eng" and r: "run eng calls s = Inr s'"
      and m: "current_solution s' = Some m \<or> m \<in> set (set_solution_calls (trace s'))"
    for eng calls s' m
  proof -
    from run_retained [OF sound init_retained [OF assms(1)] r] m
    have all: "\<forall>a\<in>set (assertions s). bval m a"
      by (auto simp: retained_satisfies_def)
    from all 1 have "bval m (Ge (task_end t) (IntVal 0))"
      by blast
    moreover from all 2 have "\<not> lower_bounded t \<longrightarrow> bval m (Ge (task_start t) (IntVal 0))"
      by blast
    moreover from all 3 have "\<not> upper_bounded t \<longrightarrow> bval m (Le (task_end t) (horizon p))"
      by blast
    ultimately show ?thesis
      by simp
  qed
  from 1 2 3 4 5 show ?thesis
    by blast
qed

theorem default_task_bounds_witness:
  "init pb False 60 False None = Inr S0 \<and> task1 \<in> set (get_tasks pb)
   \<and> \<not> lower_bounded task1 \<and> \<not> upper_bounded task1
   \<and> Ge (IntVar ''s1'') (IntVal 0) \<in> set (assertions S0)
   \<and> Le (IntVar ''e1'') (IntVal 4) \<in> set (assertions S0)
   \<and> engine_sound E \<and> run E [Solve, FindAnotherSolution (IntVar ''s1'')] S0 = Inr S2
   \<and> current_solution S2 = Some m1
   \<and> 0 \<le> aval m1 (IntVar ''s1'') \<and> aval m1 (IntVar ''e1'') \<le> aval m1 (IntVal 4)"
proof -
  have a: "init pb False 60 False None = Inr S0" "task1 \<in> set (get_tasks pb)"
    unfolding S0_def by code_simp+
  have b: "\<not> lower_bounded task1" "\<not> upper_bounded task1" "task_start task1 = IntVar ''s1''"
    "task_end task1 = IntVar ''e1''" "horizon pb = IntVal 4"
    by (simp_all add: task1_def pb_def)
  have c: "engine_sound E"
    unfolding E_def by (rule candidates_engine_sound)
  have d: "run E [Solve, FindAnotherSolution (IntVar ''s1'')] S0 = Inr S2"
    "current_solution S2 = Some m1"
    by code_simp+
  from default_task_bounds [OF a]
  have "\<not> lower_bounded task1 \<longrightarrow> Ge (task_start task1) (IntVal 0) \<in> set (assertions S0)"
    "\<not> upper_bounded task1 \<longrightarrow> Le (task_end task1) (horizon pb) \<in> set (assertions S0)"
    by blast+
  with b have e: "Ge (IntVar ''s1'') (IntVal 0) \<in> set (assertions S0)"
    "Le (IntVar ''e1'') (IntVal 4) \<in> set (assertions S0)"
    by simp_all
  from default_task_bounds [OF a] have
    "\<forall>eng calls s' m.
            engine_sound eng \<and> run eng calls S0 = Inr s'
            \<and> (current_solution s' = Some m \<or> m \<in> set (set_solution_calls (trace s')))
            \<longrightarrow> 0 \<le> aval m (task_end task1)
                \<and> (\<not> lower_bounded task1 \<longrightarrow> 0 \<le> aval m (task_start task1))
                \<and> (\<not> upper_bounded task1 \<longrightarrow> aval m (task_end task1) \<le> aval m (horizon pb))"
    by blast
  with c d have "0 \<le> aval m1 (task_end task1)
                \<and> (\<not> lower_bounded task1 \<longrightarrow> 0 \<le> aval m1 (task_start task1))
                \<and> (\<not> upper_bounded task1 \<longrightarrow> aval m1 (task_end task1) \<le> aval m1 (horizon pb))"
    by blast
  with b have "0 \<le> aval m1 (IntVar ''s1'')" "aval m1 (IntVar ''e1'') \<le> aval m1 (IntVal 4)"
    by simp_all
  with a b c d e show ?thesis
    by blast
qed

lemma list_all2_memberD:
  "list_all2 P xs ys \<Longrightarrow> y \<in> set ys \<Longrightarrow> \<exists>x\<in>set xs. P x y"
  by (induction rule: list_all2_induct) auto

section \<open>Work without resources\<close>

text \<open>
  Claim C3.  Let a task of the problem have a positive work amount and no required
  resource (the other tasks respecting the busy-interval invariant).  Then constructing
  the solver raises nothing; the constraint staged for the task compares the empty sum,
  which is 0, with the work amount, so no model satisfies the staged constraints; and
  with an engine whose models satisfy the staged constraints \<^verbatim>\<open>solve\<close> returns false and
  retains no solution.  (In the source the comparison of the two integers is evaluated
  by Python and the engine receives the constant false; the constraint staged here has
  the same truth value in every model.)
\<close>

theorem work_without_resources_is_unsat:
  assumes "t \<in> set (get_tasks p)" and "0 < work_amount t" and "required_resources t = []"
    and "busy_intervals_registered p" and "engine_sound eng"
  shows "\<exists>s. init p verbose max_time parallel e0 = Inr s
           \<and> (\<exists>c\<in>set (assertions s). \<forall>m. bval m c \<longleftrightarrow> work_amount t \<le> 0)
           \<and> (\<forall>m. \<not> satisfies m (assertions s))
           \<and> \<not> fst (solve eng s)
           \<and> current_solution (snd (solve eng s)) = None"
proof -
  from init_registered [OF assms(4), of verbose max_time parallel e0] obtain s where
    s: "init p verbose max_time parallel e0 = Inr s"
    by blast
  from init_Inr_structure [OF s] obtain ws s4 where
    ws: "list_all2 meets_work_amount ws (filter (\<lambda>t. 0 < work_amount t) (get_tasks p))"
    and s4: "s4 = solver_add (entity_constraints p @ ws) (new_solver p verbose max_time parallel e0)"
    and e: "extends s4 s"
    by blast
  from assms(1,2) have "t \<in> set (filter (\<lambda>t. 0 < work_amount t) (get_tasks p))"
    by simp
  from list_all2_memberD [OF ws this] obtain c where c: "c \<in> set ws" "meets_work_amount c t"
    by blast
  have "work_done m t = 0" for m
    by (simp add: work_done_def assms(3))
  with c(2) have c0: "\<forall>m. bval m c \<longleftrightarrow> work_amount t \<le> 0"
    by (simp add: meets_work_amount_def)
  from c(1) extends_fields(10) [OF e] have cs: "c \<in> set (assertions s)"
    by (auto simp: s4)
  have unsat: "\<not> satisfies m (assertions s)" for m
  proof
    assume "satisfies m (assertions s)"
    with cs have "bval m c"
      by (auto simp: satisfies_def list_all_iff)
    with c0 assms(2) show False
      by simp
  qed
  with solve_model_satisfies [OF assms(5), of s] have f: "\<not> fst (solve eng s)"
    by blast
  have "current_solution s = None"
    using init_retained [OF s] extends_fields(6) [OF e] by (simp add: s4 new_solver_fields)
  with f have "current_solution (snd (solve eng s)) = None"
    by (simp add: solve_current_solution solve_fst)
  with s cs c0 unsat f show ?thesis
    by blast
qed

theorem work_without_resources_is_unsat_witness:
  "idle_task \<in> set (get_tasks idle_pb) \<and> 0 < work_amount idle_task
   \<and> required_resources idle_task = [] \<and> busy_intervals_registered idle_pb
   \<and> engine_sound E3
   \<and> init idle_pb False 60 False None = Inr I0
   \<and> Ge (IntVal 0) (IntVal 4) \<in> set (assertions I0)
   \<and> \<not> fst (solve E3 I0) \<and> current_solution (snd (solve E3 I0)) = None"
proof -
  have a: "idle_task \<in> set (get_tasks idle_pb)" "0 < work_amount idle_task"
    "required_resources idle_task = []" "busy_intervals_registered idle_pb"
    by code_simp+
  have b: "engine_sound E3"
    unfolding E3_def by (rule candidates_engine_sound)
  have c: "init idle_pb False 60 False None = Inr I0"
    "Ge (IntVal 0) (IntVal 4) \<in> set (assertions I0)"
    unfolding I0_def by code_simp+
  from work_without_resources_is_unsat [OF a b, of False 60 False None] c(1)
  have "\<not> fst (solve E3 I0)" "current_solution (snd (solve E3 I0)) = None"
    by simp_all
  with a b c show ?thesis
    by blast
qed

section \<open>Diversification excludes values for good\<close>

lemma scripted_engine_sound: "engine_sound (scripted_engine script)"
  unfolding engine_sound_def scripted_engine_def
  by (auto split: if_splits)

text \<open>
  Claim C2, as amended.  Take an engine whose models satisfy the staged constraints, and
  let \<^verbatim>\<open>find_another_solution\<close> on a variable return true in any state, be it the first
  diversification call after \<^verbatim>\<open>solve\<close> or a later one.  Then a model was retained before
  the call; the call retains a new model, the last one handed to \<open>set_solution\<close>, which
  satisfies all staged constraints; the new model gives the variable a value different
  from the one in the model retained before the call and different from every value
  whose exclusion for the variable is staged; the exclusion of the value just read is
  staged after the constraints staged before.  Moreover the exclusions accumulate: if
  \<^verbatim>\<open>find_another_solution\<close> was called on the variable in an earlier state, successfully
  or not, and any sequence of calls led from there to the state of the present call,
  then the exclusion of the value the variable had in the model retained at that earlier
  call is still staged, and the new model differs from that value too.  (A model that
  was retained in between but replaced by a plain \<^verbatim>\<open>solve\<close> before any diversification
  call on the variable has had no value excluded, and its value may come back.)
\<close>

theorem find_another_solution_excludes_values:
  assumes sound: "engine_sound eng"
    and call: "find_another_solution eng v s2 = Inr (True, s3)"
  shows "\<exists>m2 m3. current_solution s2 = Some m2 \<and> current_solution s3 = Some m3
           \<and> last (set_solution_calls (trace s3)) = m3
           \<and> satisfies m3 (assertions s3)
           \<and> aval m3 v \<noteq> aval m2 v
           \<and> (\<forall>c. Ne v (IntVal c) \<in> set (assertions s2) \<longrightarrow> aval m3 v \<noteq> c)
           \<and> assertions s3 = assertions s2 @ [Ne v (IntVal (aval m2 v))]
           \<and> (\<forall>s0 m0 b1 s1 calls.
                 current_solution s0 = Some m0
                 \<and> find_another_solution eng v s0 = Inr (b1, s1)
                 \<and> run eng calls s1 = Inr s2
                 \<longrightarrow> Ne v (IntVal (aval m0 v)) \<in> set (assertions s2)
                     \<and> aval m3 v \<noteq> aval m0 v)"
proof -
  from call obtain m2 where m2: "current_solution s2 = Some m2"
    by (cases "current_solution s2") (auto simp: find_another_solution_def)
  from find_another_solution_Some [OF m2 call] obtain c2 where
    c2: "model_getitem_as_long m2 v = Inr c2"
      "fst (solve eng (solver_add [Ne v (IntVal c2)] s2))"
      "s3 = snd (solve eng (solver_add [Ne v (IntVal c2)] s2))"
    by auto
  have v2: "aval m2 v = c2"
    by (rule model_getitem_as_long_Inr [OF c2(1)])
  let ?s = "solver_add [Ne v (IntVal c2)] s2"
  from solve_model_satisfies [OF sound c2(2)] obtain m3 where
    m3: "current_solution s3 = Some m3" "satisfies m3 (assertions ?s)"
    unfolding c2(3) by blast
  have as3: "assertions s3 = assertions s2 @ [Ne v (IntVal c2)]"
    by (simp add: c2(3) solve_frame)
  from m3(2) have sat3: "satisfies m3 (assertions s3)"
    by (simp add: as3)
  from m3(2) have all: "\<forall>a\<in>set (assertions s2). bval m3 a" and ne2: "bval m3 (Ne v (IntVal c2))"
    by (simp_all add: satisfies_def list_all_iff)
  have excl: "\<forall>c. Ne v (IntVal c) \<in> set (assertions s2) \<longrightarrow> aval m3 v \<noteq> c"
  proof (intro allI impI)
    fix c assume "Ne v (IntVal c) \<in> set (assertions s2)"
    with all have "bval m3 (Ne v (IntVal c))"
      by blast
    then show "aval m3 v \<noteq> c"
      by simp
  qed
  have hist: "Ne v (IntVal (aval m0 v)) \<in> set (assertions s2) \<and> aval m3 v \<noteq> aval m0 v"
    if h: "current_solution s0 = Some m0 \<and> find_another_solution eng v s0 = Inr (b1, s1)
           \<and> run eng calls s1 = Inr s2"
    for s0 m0 b1 s1 calls
  proof -
    from h have h1: "current_solution s0 = Some m0"
      and h2: "find_another_solution eng v s0 = Inr (b1, s1)"
      and h3: "run eng calls s1 = Inr s2"
      by simp_all
    from find_another_solution_Some [OF h1 h2] obtain c0 where
      c0: "model_getitem_as_long m0 v = Inr c0"
        "s1 = snd (solve eng (solver_add [Ne v (IntVal c0)] s0))"
      by blast
    have v0: "aval m0 v = c0"
      by (rule model_getitem_as_long_Inr [OF c0(1)])
    have "Ne v (IntVal c0) \<in> set (assertions s1)"
      by (simp add: c0(2) solve_frame)
    with run_assertions [OF h3] have "Ne v (IntVal c0) \<in> set (assertions s2)"
      by blast
    with excl show ?thesis
      by (simp add: v0)
  qed
  from c2(2) m3(1) have "last (set_solution_calls (trace s3)) = m3"
    by (simp add: c2(3) solve_set_solution_calls solve_current_solution solve_fst)
  with m2 m3(1) sat3 ne2 excl as3 hist show ?thesis
    by (intro exI [of _ m2] exI [of _ m3]) (simp add: v2)
qed

theorem find_another_solution_excludes_values_witness:
  "engine_sound E3 \<and> current_solution T1 = Some m0
   \<and> find_another_solution E3 (IntVar ''s1'') T1 = Inr (True, T2)
   \<and> current_solution T2 = Some m1
   \<and> aval m1 (IntVar ''s1'') \<noteq> aval m0 (IntVar ''s1'')
   \<and> run E3 [Solve] T2 = Inr T3
   \<and> find_another_solution E3 (IntVar ''s1'') T3 = Inr (True, T4)
   \<and> current_solution T3 = Some m1 \<and> current_solution T4 = Some m2
   \<and> aval m2 (IntVar ''s1'') \<noteq> aval m1 (IntVar ''s1'')
   \<and> aval m2 (IntVar ''s1'') \<noteq> aval m0 (IntVar ''s1'')"
proof -
  have a: "engine_sound E3"
    unfolding E3_def by (rule candidates_engine_sound)
  have b: "current_solution T1 = Some m0"
    "find_another_solution E3 (IntVar ''s1'') T1 = Inr (True, T2)"
    "current_solution T2 = Some m1"
    by code_simp+
  have c: "run E3 [Solve] T2 = Inr T3"
    by code_simp
  have d: "find_another_solution E3 (IntVar ''s1'') T3 = Inr (True, T4)"
    by code_simp
  have e: "current_solution T3 = Some m1" "current_solution T4 = Some m2"
    by code_simp+
  from find_another_solution_excludes_values [OF a b(2)] b(1,3)
  have first: "aval m1 (IntVar ''s1'') \<noteq> aval m0 (IntVar ''s1'')"
    by auto
  from find_another_solution_excludes_values [OF a d] e obtain
    f: "aval m2 (IntVar ''s1'') \<noteq> aval m1 (IntVar ''s1'')"
    and g: "\<forall>s0 m0 b1 s1 calls.
                 current_solution s0 = Some m0
                 \<and> find_another_solution E3 (IntVar ''s1'') s0 = Inr (b1, s1)
                 \<and> run E3 calls s1 = Inr T3
                 \<longrightarrow> Ne (IntVar ''s1'') (IntVal (aval m0 (IntVar ''s1''))) \<in> set (assertions T3)
                     \<and> aval m2 (IntVar ''s1'') \<noteq> aval m0 (IntVar ''s1'')"
    by auto
  from g b(1,2) c have "aval m2 (IntVar ''s1'') \<noteq> aval m0 (IntVar ''s1'')"
    by blast
  with a b c d e first f show ?thesis
    by blast
qed

text \<open>
  The claim as it was stated, with "every model previously retained", fails.  The
  scripted engine is sound.  \<^verbatim>\<open>solve\<close> retains \<open>m0\<close> (start 0); the first diversification
  call on the start excludes 0 and retains \<open>m1\<close> (start 1); \<^verbatim>\<open>solve\<close> retains \<open>m2\<close>
  (start 2), so the start 1 of \<open>m1\<close> is never excluded; the second diversification call on
  the start excludes 2, succeeds and retains \<open>m1\<close> again: the start has the value it had
  in a model retained before.
\<close>

theorem find_another_solution_revisits_value:
  "engine_sound ES
   \<and> solve ES U0 = (True, U1) \<and> current_solution U1 = Some m0
   \<and> find_another_solution ES (IntVar ''s1'') U1 = Inr (True, U2)
   \<and> current_solution U2 = Some m1
   \<and> solve ES U2 = (True, U3) \<and> current_solution U3 = Some m2
   \<and> find_another_solution ES (IntVar ''s1'') U3 = Inr (True, U4)
   \<and> current_solution U4 = Some m1
   \<and> aval m0 (IntVar ''s1'') = 0 \<and> aval m1 (IntVar ''s1'') = 1 \<and> aval m2 (IntVar ''s1'') = 2"
proof -
  have a: "engine_sound ES"
    unfolding ES_def by (rule scripted_engine_sound)
  have b: "solve ES U0 = (True, U1)" "current_solution U1 = Some m0"
    by code_simp+
  have c: "find_another_solution ES (IntVar ''s1'') U1 = Inr (True, U2)"
    "current_solution U2 = Some m1"
    by code_simp+
  have d: "solve ES U2 = (True, U3)" "current_solution U3 = Some m2"
    by code_simp+
  have e: "find_another_solution ES (IntVar ''s1'') U3 = Inr (True, U4)"
    "current_solution U4 = Some m1"
    by code_simp+
  have f: "aval m0 (IntVar ''s1'') = 0" "aval m1 (IntVar ''s1'') = 1" "aval m2 (IntVar ''s1'') = 2"
    by code_simp+
  from a b c d e f show ?thesis
    by simp
qed

end
